theory Spec2Isabelle
  imports Main "HOL-Library.Sublist"
begin

unbundle bit_operations_syntax

section \<open>JavaScript values used by App.jsx\<close>

text \<open>
  A JavaScript string is a sequence of UTF-16 code units; a \<open>Uint8Array\<close> is a sequence
  of bytes. Both are lists of naturals here (code units below \<open>2^16\<close>, bytes below
  \<open>2^8\<close>); the program does no arithmetic on them.
\<close>

type_synonym js_string = "nat list"
type_synonym bytes = "nat list"

definition ascii :: "string \<Rightarrow> js_string" where
  "ascii cs = map of_char cs"

text \<open>
  \<open>String.prototype.trim\<close> removes leading and trailing WhiteSpace and LineTerminator
  code points (ECMAScript 12.2, 12.3): TAB, LF, VT, FF, CR, SP, NBSP, the Zs category,
  LS, PS and U+FEFF.
\<close>

definition is_white_space :: "nat \<Rightarrow> bool" where
  "is_white_space c \<longleftrightarrow>
     c \<in> {0x09, 0x0A, 0x0B, 0x0C, 0x0D, 0x20, 0xA0, 0x1680, 0x2028, 0x2029, 0x202F, 0x205F,
          0x3000, 0xFEFF} \<or> (0x2000 \<le> c \<and> c \<le> 0x200A)"

definition trim :: "js_string \<Rightarrow> js_string" where
  "trim s = rev (dropWhile is_white_space (rev (dropWhile is_white_space s)))"

text \<open>Decimal rendering of a number inside a template literal, as in \<open>`HTTP ${res.status}`\<close>.\<close>

function digits :: "nat \<Rightarrow> js_string" where
  "digits n = (if n < 10 then [48 + n] else digits (n div 10) @ [48 + n mod 10])"
  by pat_completeness auto
termination
  by (relation "measure id") auto

declare digits.simps [simp del]

text \<open>
  A thrown value: an \<open>Error\<close> (or \<open>DOMException\<close>) object with its \<open>name\<close> and
  \<open>message\<close>. \<open>new Error(msg)\<close> has the name \<open>Error\<close>.
\<close>

record js_error =
  err_name :: js_string
  err_message :: js_string

definition new_Error :: "js_string \<Rightarrow> js_error" where
  "new_Error msg = \<lparr>err_name = ascii ''Error'', err_message = msg\<rparr>"

text \<open>\<open>Error.prototype.toString\<close>, which \<open>String(e)\<close> calls.\<close>

definition error_toString :: "js_error \<Rightarrow> js_string" where
  "error_toString e =
     (if err_name e = [] then err_message e
      else if err_message e = [] then err_name e
      else err_name e @ ascii '': '' @ err_message e)"

text \<open>\<open>String(e.message || e)\<close>: the message when it is truthy, else \<open>String(e)\<close>.\<close>

definition error_text :: "js_error \<Rightarrow> js_string" where
  "error_text e = (if err_message e \<noteq> [] then err_message e else error_toString e)"

text \<open>The settlement of a promise the component awaits.\<close>

datatype 'a settled = Resolved 'a | Rejected js_error

text \<open>What the component reads of a \<open>Response\<close>: \<open>ok\<close>, \<open>status\<close>, and whether \<open>body\<close> is non-null.\<close>

record response =
  ok :: bool
  status :: nat
  has_body :: bool

text \<open>
  The result of \<open>reader.read()\<close>: \<open>value\<close> (\<open>None\<close> for \<open>undefined\<close>; a
  \<open>Uint8Array\<close>, also an empty one, is truthy) and \<open>done\<close>.
\<close>

datatype read_result = ReadResult "bytes option" bool

section \<open>The settings hook: useLocalStorage\<close>

text \<open>
  \<open>localStorage\<close> is a string-keyed store whose every access may throw (storage disabled
  for the origin) and whose \<open>setItem\<close> may throw when the quota is used up.
\<close>

datatype js_value = Undefined | Null | Str js_string

fun to_String :: "js_value \<Rightarrow> js_string" where
  "to_String Undefined = ascii ''undefined''"
| "to_String Null = ascii ''null''"
| "to_String (Str s) = s"

record local_storage =
  items :: "js_string \<rightharpoonup> js_string"
  access_denied :: bool
  quota_exceeded :: bool

definition getItem :: "local_storage \<Rightarrow> js_string \<Rightarrow> js_error + js_string option" where
  "getItem st k =
     (if access_denied st then Inl \<lparr>err_name = ascii ''SecurityError'', err_message = []\<rparr>
      else Inr (items st k))"

definition setItem :: "local_storage \<Rightarrow> js_string \<Rightarrow> js_string \<Rightarrow> js_error + local_storage" where
  "setItem st k v =
     (if access_denied st then Inl \<lparr>err_name = ascii ''SecurityError'', err_message = []\<rparr>
      else if quota_exceeded st
        then Inl \<lparr>err_name = ascii ''QuotaExceededError'', err_message = []\<rparr>
      else Inr (st\<lparr>items := (items st)(k \<mapsto> v)\<rparr>))"

definition removeItem :: "local_storage \<Rightarrow> js_string \<Rightarrow> js_error + local_storage" where
  "removeItem st k =
     (if access_denied st then Inl \<lparr>err_name = ascii ''SecurityError'', err_message = []\<rparr>
      else Inr (st\<lparr>items := (items st)(k := None)\<rparr>))"

text \<open>
  The initialiser of the hook's state:
  \<^verbatim>\<open>try { const v = localStorage.getItem(key); return v !== null ? v : initialValue; }
  catch { return initialValue; }\<close>
\<close>

definition useLocalStorage_init :: "local_storage \<Rightarrow> js_string \<Rightarrow> js_value \<Rightarrow> js_value" where
  "useLocalStorage_init st key initialValue =
     (case getItem st key of
        Inl e \<Rightarrow> initialValue
      | Inr v \<Rightarrow> (case v of Some x \<Rightarrow> Str x | None \<Rightarrow> initialValue))"

text \<open>
  The hook's effect, run after a render in which \<open>val\<close> changed:
  \<^verbatim>\<open>try { if (val === undefined || val === null || val === "")
          return localStorage.removeItem(key);
        localStorage.setItem(key, String(val)); } catch {}\<close>
  The result is the store afterwards; a throw leaves it as it was.
\<close>

definition useLocalStorage_effect :: "local_storage \<Rightarrow> js_string \<Rightarrow> js_value \<Rightarrow> local_storage" where
  "useLocalStorage_effect st key val =
     (if val = Undefined \<or> val = Null \<or> val = Str []
      then (case removeItem st key of Inl e \<Rightarrow> st | Inr st' \<Rightarrow> st')
      else (case setItem st key (to_String val) of Inl e \<Rightarrow> st | Inr st' \<Rightarrow> st'))"

section \<open>The streaming text decoder\<close>

text \<open>
  \<open>new TextDecoder()\<close> is the platform's UTF-8 decoder in replacement mode with
  \<open>ignoreBOM = false\<close>; it is not code of this repository and is modelled after the
  WHATWG Encoding Standard (UTF-8 decoder, 8.1.1; \<open>decode\<close> with \<open>stream: true\<close>
  and "serialize I/O queue", 7.1). The state kept between two calls with
  \<open>stream: true\<close> is the decoder's five variables and the "BOM seen" flag.
\<close>

record text_decoder =
  code_point :: nat
  bytes_seen :: nat
  bytes_needed :: nat
  lower_boundary :: nat
  upper_boundary :: nat
  bom_seen :: bool

definition new_TextDecoder :: text_decoder where
  "new_TextDecoder =
     \<lparr>code_point = 0, bytes_seen = 0, bytes_needed = 0,
      lower_boundary = 0x80, upper_boundary = 0xBF, bom_seen = False\<rparr>"

text \<open>
  Step 3 of the handler: a byte that arrives when no bytes are needed. The result is the
  new state and the scalar values emitted (\<open>0xFFFD\<close> for an error).
\<close>

definition utf8_lead :: "text_decoder \<Rightarrow> nat \<Rightarrow> text_decoder \<times> nat list" where
  "utf8_lead d b =
     (if b \<le> 0x7F then (d, [b])
      else if 0xC2 \<le> b \<and> b \<le> 0xDF
        then (d\<lparr>bytes_needed := 1, code_point := b AND 0x1F\<rparr>, [])
      else if 0xE0 \<le> b \<and> b \<le> 0xEF
        then (d\<lparr>lower_boundary := (if b = 0xE0 then 0xA0 else lower_boundary d),
                upper_boundary := (if b = 0xED then 0x9F else upper_boundary d),
                bytes_needed := 2, code_point := b AND 0xF\<rparr>, [])
      else if 0xF0 \<le> b \<and> b \<le> 0xF4
        then (d\<lparr>lower_boundary := (if b = 0xF0 then 0x90 else lower_boundary d),
                upper_boundary := (if b = 0xF4 then 0x8F else upper_boundary d),
                bytes_needed := 3, code_point := b AND 0x7\<rparr>, [])
      else (d, [0xFFFD]))"

text \<open>
  The handler for one byte. A byte outside the boundaries resets the decoder, emits
  \<open>0xFFFD\<close> and is restored to the queue, that is, handled again as a lead byte.
\<close>

definition utf8_handler :: "text_decoder \<Rightarrow> nat \<Rightarrow> text_decoder \<times> nat list" where
  "utf8_handler d b =
     (if bytes_needed d = 0 then utf8_lead d b
      else if \<not> (lower_boundary d \<le> b \<and> b \<le> upper_boundary d)
        then (let (d', out) =
                    utf8_lead (d\<lparr>code_point := 0, bytes_needed := 0, bytes_seen := 0,
                                 lower_boundary := 0x80, upper_boundary := 0xBF\<rparr>) b
              in (d', 0xFFFD # out))
      else
        (let cp = push_bit 6 (code_point d) OR (b AND 0x3F);
             seen = bytes_seen d + 1
         in if seen \<noteq> bytes_needed d
            then (d\<lparr>lower_boundary := 0x80, upper_boundary := 0xBF,
                    code_point := cp, bytes_seen := seen\<rparr>, [])
            else (d\<lparr>lower_boundary := 0x80, upper_boundary := 0xBF,
                    code_point := 0, bytes_needed := 0, bytes_seen := 0\<rparr>, [cp])))"

text \<open>A scalar value as UTF-16 code units of the resulting string.\<close>

definition utf16 :: "nat \<Rightarrow> js_string" where
  "utf16 cp =
     (if cp < 0x10000 then [cp]
      else [0xD800 + (cp - 0x10000) div 0x400, 0xDC00 + (cp - 0x10000) mod 0x400])"

text \<open>
  "Serialize I/O queue": the first scalar value sets "BOM seen" and is dropped when it
  is U+FEFF; every other one is appended to the output string.
\<close>

fun serialize :: "bool \<Rightarrow> nat list \<Rightarrow> js_string \<times> bool" where
  "serialize seen [] = ([], seen)"
| "serialize seen (item # rest) =
     (if \<not> seen
      then (if item = 0xFEFF then serialize True rest
            else (let (out, seen') = serialize True rest in (utf16 item @ out, seen')))
      else (let (out, seen') = serialize seen rest in (utf16 item @ out, seen')))"

text \<open>The scalar values the decoder emits for the bytes pushed to its queue.\<close>

fun utf8_run :: "text_decoder \<Rightarrow> bytes \<Rightarrow> text_decoder \<times> nat list" where
  "utf8_run d [] = (d, [])"
| "utf8_run d (b # bs) =
     (let (d1, out1) = utf8_handler d b; (d2, out2) = utf8_run d1 bs in (d2, out1 @ out2))"

text \<open>\<open>decoder.decode(value, { stream: true })\<close>: the text returned and the decoder afterwards.\<close>

definition decode :: "text_decoder \<Rightarrow> bytes \<Rightarrow> js_string \<times> text_decoder" where
  "decode d bs =
     (let (d', items) = utf8_run d bs; (out, seen) = serialize (bom_seen d') items
      in (out, d'\<lparr>bom_seen := seen\<rparr>))"

section \<open>The component state\<close>

datatype role = User | Assistant

record message =
  role :: role
  content :: js_string

text \<open>
  The continuation of the one \<open>send\<close> call that may be in flight: not started or
  finished, suspended at \<open>await fetch(...)\<close>, or suspended at \<open>await reader.read()\<close>
  with its decoder.
\<close>

datatype send_task = Idle | AwaitFetch | Reading text_decoder

text \<open>
  An issued HTTP request. The body of \<open>/generate_stream\<close> is
  \<open>JSON.stringify({ prompt })\<close>, kept as the prompt it serialises; \<open>signal\<close> is the
  index of the \<open>AbortController\<close> whose signal was passed.
\<close>

datatype request_body = NoBody | JsonPrompt js_string

record http_request =
  url :: js_string
  http_method :: js_string
  headers :: "(js_string \<times> js_string) list"
  body :: request_body
  signal :: "nat option"

text \<open>
  The hooks of \<open>App\<close> (\<open>apiBase\<close> to \<open>abortRef\<close>) and what lies outside the
  component: the local storage, the \<open>aborted\<close> flag of every \<open>AbortController\<close>
  created so far (\<open>abortRef\<close> holds an index into it), the requests issued, the
  suspended \<open>send\<close>, the number of \<open>resetChat\<close> calls awaiting their response, and
  whether a state updater threw while rendering (the component is then unmounted).
\<close>

record app_state =
  apiBase :: js_string
  token :: js_string
  input :: js_string
  messages :: "message list"
  isSending :: bool
  error :: js_string
  abortRef :: "nat option"
  storage :: local_storage
  signals :: "bool list"
  requests :: "http_request list"
  task :: send_task
  pending_resets :: nat
  crashed :: bool

definition vc_apiBase :: js_string where
  "vc_apiBase = ascii ''vc_apiBase''"

definition vc_apiToken :: js_string where
  "vc_apiToken = ascii ''vc_apiToken''"

definition welcome_text :: js_string where
  "welcome_text = utf16 0x1F44B @ ascii '' Ready when you are. Type a prompt and hit Send.''"

definition cleared_text :: js_string where
  "cleared_text = utf16 0x1F9F9 @ ascii '' Chat history cleared. Fresh start!''"

text \<open>\<open>a || b\<close> on the values a build-time variable may have.\<close>

fun js_or :: "js_value \<Rightarrow> js_value \<Rightarrow> js_value" where
  "js_or (Str s) b = (if s \<noteq> [] then Str s else b)"
| "js_or a b = b"

text \<open>
  The first render and its effects. \<open>import.meta.env.VITE_API_BASE\<close> and
  \<open>VITE_API_TOKEN\<close> are build-time constants, taken as parameters. Both hooks hold
  strings: the initial values are strings and \<open>getItem\<close> returns a string.
\<close>

definition App_init :: "js_value \<Rightarrow> js_value \<Rightarrow> local_storage \<Rightarrow> app_state" where
  "App_init VITE_API_BASE VITE_API_TOKEN st =
     (let base = useLocalStorage_init st vc_apiBase
                   (js_or VITE_API_BASE (Str (ascii ''http://localhost:8000'')));
          tok = useLocalStorage_init st vc_apiToken (js_or VITE_API_TOKEN (Str []));
          st1 = useLocalStorage_effect st vc_apiBase base;
          st2 = useLocalStorage_effect st1 vc_apiToken tok
      in \<lparr>apiBase = to_String base, token = to_String tok, input = [],
          messages = [\<lparr>role = Assistant, content = welcome_text\<rparr>],
          isSending = False, error = [], abortRef = None, storage = st2,
          signals = [], requests = [], task = Idle, pending_resets = 0, crashed = False\<rparr>)"

section \<open>canSend, send, cancel, resetChat\<close>

text \<open>\<open>Boolean(apiBase && token && input.trim().length > 0 && !isSending)\<close>\<close>

definition canSend :: "app_state \<Rightarrow> bool" where
  "canSend s \<longleftrightarrow> apiBase s \<noteq> [] \<and> token s \<noteq> [] \<and> length (trim (input s)) > 0 \<and> \<not> isSending s"

text \<open>\<open>send\<close> up to its first \<open>await\<close>: the guard, the two new entries, the request.\<close>

definition send :: "app_state \<Rightarrow> app_state" where
  "send s =
     (if \<not> canSend s then s
      else
        let userMsg = \<lparr>role = User, content = input s\<rparr>;
            assistantMsg = \<lparr>role = Assistant, content = []\<rparr>;
            controller = length (signals s)
        in s\<lparr>error := [],
             messages := messages s @ [userMsg, assistantMsg],
             input := [],
             signals := signals s @ [False],
             abortRef := Some controller,
             isSending := True,
             requests := requests s @
               [\<lparr>url = apiBase s @ ascii ''/generate_stream'',
                 http_method = ascii ''POST'',
                 headers = [(ascii ''Content-Type'', ascii ''application/json''),
                            (ascii ''Authorization'', ascii ''Bearer '' @ token s)],
                 body = JsonPrompt (content userMsg),
                 signal = Some controller\<rparr>],
             task := AwaitFetch\<rparr>)"

text \<open>\<open>catch (e) { if (e.name !== "AbortError") { console.error(e); setError(String(e.message || e)); } }\<close>\<close>

definition send_catch :: "js_error \<Rightarrow> app_state \<Rightarrow> app_state" where
  "send_catch e s = (if err_name e \<noteq> ascii ''AbortError'' then s\<lparr>error := error_text e\<rparr> else s)"

text \<open>\<open>finally { setIsSending(false); abortRef.current = null; }\<close>, after which the call returns.\<close>

definition send_finally :: "app_state \<Rightarrow> app_state" where
  "send_finally s = s\<lparr>isSending := False, abortRef := None, task := Idle\<rparr>"

text \<open>
  The continuation after \<open>await fetch(...)\<close>:
  \<open>if (!res.ok || !res.body) throw new Error(`HTTP ${res.status}`)\<close>, else the reader and
  the decoder are created and the loop suspends at its first \<open>read\<close>.
\<close>

definition send_fetch_settled :: "response settled \<Rightarrow> app_state \<Rightarrow> app_state" where
  "send_fetch_settled r s =
     (case r of
        Rejected e \<Rightarrow> send_finally (send_catch e s)
      | Resolved res \<Rightarrow>
          if \<not> ok res \<or> \<not> has_body res
          then send_finally (send_catch (new_Error (ascii ''HTTP '' @ digits (status res))) s)
          else s\<lparr>task := Reading new_TextDecoder\<rparr>)"

text \<open>
  The state updater of one chunk:
  \<^verbatim>\<open>(m) => { const out = [...m];
            out[out.length - 1] = { role: "assistant",
                                    content: out[out.length - 1].content + chunk };
            return out; }\<close>
  On an empty array \<open>out[-1]\<close> is \<open>undefined\<close> and reading its \<open>content\<close> throws.
\<close>

definition append_chunk :: "js_string \<Rightarrow> message list \<Rightarrow> js_error + message list" where
  "append_chunk chunk m =
     (let out = m
      in if out = [] then Inl \<lparr>err_name = ascii ''TypeError'', err_message = []\<rparr>
         else Inr (out[length out - 1 :=
                     \<lparr>role = Assistant, content = content (out ! (length out - 1)) @ chunk\<rparr>]))"

text \<open>
  One iteration of \<open>while (!done)\<close>, from the settlement of \<open>await reader.read()\<close> to the
  next suspension or to the end of the call.
\<close>

definition send_read_settled :: "text_decoder \<Rightarrow> read_result settled \<Rightarrow> app_state \<Rightarrow> app_state" where
  "send_read_settled decoder r s =
     (case r of
        Rejected e \<Rightarrow> send_finally (send_catch e s)
      | Resolved (ReadResult v d) \<Rightarrow>
          (case v of
             None \<Rightarrow> if d then send_finally s else s
           | Some bs \<Rightarrow>
               let (chunk, decoder') = decode decoder bs
               in (case append_chunk chunk (messages s) of
                     Inl e \<Rightarrow> s\<lparr>crashed := True\<rparr>
                   | Inr out \<Rightarrow>
                       let s1 = s\<lparr>messages := out, task := Reading decoder'\<rparr>
                       in if d then send_finally s1 else s1)))"

text \<open>\<open>abortRef.current?.abort()\<close>\<close>

definition cancel :: "app_state \<Rightarrow> app_state" where
  "cancel s = (case abortRef s of None \<Rightarrow> s | Some c \<Rightarrow> s\<lparr>signals := (signals s)[c := True]\<rparr>)"

text \<open>\<open>resetChat\<close> up to its \<open>await\<close>, its \<open>catch\<close>, and its continuation.\<close>

definition resetChat :: "app_state \<Rightarrow> app_state" where
  "resetChat s =
     s\<lparr>error := [],
       requests := requests s @
         [\<lparr>url = apiBase s @ ascii ''/reset'',
           http_method = ascii ''POST'',
           headers = [(ascii ''Authorization'', ascii ''Bearer '' @ token s)],
           body = NoBody,
           signal = None\<rparr>],
       pending_resets := Suc (pending_resets s)\<rparr>"

definition resetChat_catch :: "js_error \<Rightarrow> app_state \<Rightarrow> app_state" where
  "resetChat_catch e s = s\<lparr>error := error_text e\<rparr>"

definition resetChat_settled :: "response settled \<Rightarrow> app_state \<Rightarrow> app_state" where
  "resetChat_settled r s =
     (case r of
        Rejected e \<Rightarrow> resetChat_catch e s
      | Resolved res \<Rightarrow>
          if \<not> ok res
          then resetChat_catch (new_Error (ascii ''HTTP '' @ digits (status res))) s
          else s\<lparr>messages := [\<lparr>role = Assistant, content = cleared_text\<rparr>]\<rparr>)"

text \<open>
  The settings inputs and the Reset button of the top bar. A setter that changes the
  value is followed by the hook's effect; the button's handler calls \<open>removeItem\<close>
  outside any \<open>try\<close>, so a throw ends the handler.
\<close>

definition setApiBase :: "js_string \<Rightarrow> app_state \<Rightarrow> app_state" where
  "setApiBase v s =
     (if v = apiBase s then s
      else s\<lparr>apiBase := v, storage := useLocalStorage_effect (storage s) vc_apiBase (Str v)\<rparr>)"

definition setToken :: "js_string \<Rightarrow> app_state \<Rightarrow> app_state" where
  "setToken v s =
     (if v = token s then s
      else s\<lparr>token := v, storage := useLocalStorage_effect (storage s) vc_apiToken (Str v)\<rparr>)"

definition clearSettings :: "app_state \<Rightarrow> app_state" where
  "clearSettings s =
     (case removeItem (storage s) vc_apiBase of
        Inl e \<Rightarrow> s
      | Inr st1 \<Rightarrow>
          (case removeItem st1 vc_apiToken of
             Inl e \<Rightarrow> s\<lparr>storage := st1\<rparr>
           | Inr st2 \<Rightarrow> setToken [] (setApiBase [] (s\<lparr>storage := st2\<rparr>))))"

text \<open>\<open>if (e.key === "Enter" && !e.shiftKey) { e.preventDefault(); send(); }\<close>\<close>

definition onKeyDown :: "js_string \<Rightarrow> bool \<Rightarrow> app_state \<Rightarrow> app_state" where
  "onKeyDown key shiftKey s = (if key = ascii ''Enter'' \<and> \<not> shiftKey then send s else s)"

section \<open>Execution: user events and promise settlements, one at a time\<close>

text \<open>
  JavaScript runs one handler or continuation at a time, so an execution of the
  component is a sequence of events: what the user does, and the settlements of the
  promises the component awaits. A settlement nobody awaits does not occur and is
  skipped; an unmounted component takes no further step.
\<close>

datatype event =
    SetApiBase js_string
  | SetToken js_string
  | ClearSettings
  | SetInput js_string
  | KeyDown js_string bool
  | SendClick
  | CancelClick
  | ResetChatClick
  | FetchSettled "response settled"
  | ReadSettled "read_result settled"
  | ResetSettled "response settled"

definition step :: "app_state \<Rightarrow> event \<Rightarrow> app_state" where
  "step s ev =
     (if crashed s then s
      else case ev of
        SetApiBase v \<Rightarrow> setApiBase v s
      | SetToken v \<Rightarrow> setToken v s
      | ClearSettings \<Rightarrow> clearSettings s
      | SetInput v \<Rightarrow> s\<lparr>input := v\<rparr>
      | KeyDown key shiftKey \<Rightarrow> onKeyDown key shiftKey s
      | SendClick \<Rightarrow> send s
      | CancelClick \<Rightarrow> cancel s
      | ResetChatClick \<Rightarrow> resetChat s
      | FetchSettled r \<Rightarrow> (case task s of AwaitFetch \<Rightarrow> send_fetch_settled r s | _ \<Rightarrow> s)
      | ReadSettled r \<Rightarrow> (case task s of Reading decoder \<Rightarrow> send_read_settled decoder r s | _ \<Rightarrow> s)
      | ResetSettled r \<Rightarrow>
          (if pending_resets s = 0 then s
           else resetChat_settled r (s\<lparr>pending_resets := pending_resets s - 1\<rparr>)))"

definition run :: "app_state \<Rightarrow> event list \<Rightarrow> app_state" where
  "run s evs = foldl step s evs"

text \<open>The texts \<open>decode\<close> returns for the successive chunks of a stream, and the decoder left.\<close>

fun chunk_texts :: "text_decoder \<Rightarrow> bytes list \<Rightarrow> js_string list" where
  "chunk_texts d [] = []"
| "chunk_texts d (bs # rest) = fst (decode d bs) # chunk_texts (snd (decode d bs)) rest"

fun decoder_after :: "text_decoder \<Rightarrow> bytes list \<Rightarrow> text_decoder" where
  "decoder_after d [] = d"
| "decoder_after d (bs # rest) = decoder_after (snd (decode d bs)) rest"

text \<open>The UTF-8 encoding of a scalar value (Encoding Standard, UTF-8 encoder).\<close>

definition utf8_encode :: "nat \<Rightarrow> bytes" where
  "utf8_encode cp =
     (if cp < 0x80 then [cp]
      else if cp < 0x800 then [0xC0 + cp div 0x40, 0x80 + cp mod 0x40]
      else if cp < 0x10000
        then [0xE0 + cp div 0x1000, 0x80 + cp div 0x40 mod 0x40, 0x80 + cp mod 0x40]
      else [0xF0 + cp div 0x40000, 0x80 + cp div 0x1000 mod 0x40,
            0x80 + cp div 0x40 mod 0x40, 0x80 + cp mod 0x40])"

definition is_scalar_value :: "nat \<Rightarrow> bool" where
  "is_scalar_value cp \<longleftrightarrow> cp \<le> 0x10FFFF \<and> \<not> (0xD800 \<le> cp \<and> cp \<le> 0xDFFF)"

text \<open>The two settlements of \<open>reader.read()\<close> a byte stream produces: a chunk, and the end.\<close>

abbreviation read_chunk :: "bytes \<Rightarrow> event" where
  "read_chunk bs \<equiv> ReadSettled (Resolved (ReadResult (Some bs) False))"

abbreviation end_of_stream :: event where
  "end_of_stream \<equiv> ReadSettled (Resolved (ReadResult None True))"

text \<open>
  While a stream is open, an event leaves it open and leaves the transcript to it unless
  it is a rejected or final read, or a successful response to \<open>/reset\<close>.
\<close>

fun leaves_stream :: "event \<Rightarrow> bool" where
  "leaves_stream (ReadSettled (Rejected e)) = False"
| "leaves_stream (ReadSettled (Resolved (ReadResult v dn))) = (\<not> dn)"
| "leaves_stream (ResetSettled (Resolved res)) = (\<not> ok res)"
| "leaves_stream ev = True"

text \<open>An event other than the settlement of the request of \<open>send\<close>.\<close>

fun not_fetch_settled :: "event \<Rightarrow> bool" where
  "not_fetch_settled (FetchSettled r) = False"
| "not_fetch_settled ev = True"

text \<open>The byte chunks that the reads among a list of events deliver, in order.\<close>

fun chunk_of :: "event \<Rightarrow> bytes list" where
  "chunk_of (ReadSettled (Resolved (ReadResult (Some bs) dn))) = [bs]"
| "chunk_of ev = []"

definition stream_chunks :: "event list \<Rightarrow> bytes list" where
  "stream_chunks evs = concat (map chunk_of evs)"

section \<open>Concrete states and inputs\<close>

definition working_storage :: local_storage where
  "working_storage = \<lparr>items = Map.empty, access_denied = False, quota_exceeded = False\<rparr>"

definition ok_response :: response where
  "ok_response = \<lparr>ok = True, status = 200, has_body = True\<rparr>"

text \<open>Settings \<open>http://x\<close> and \<open>t\<close>, the input \<open>hello\<close>, nothing in flight.\<close>

definition ready_state :: app_state where
  "ready_state =
     (App_init (Str (ascii ''http://x'')) (Str (ascii ''t'')) working_storage)
       \<lparr>input := ascii ''hello''\<rparr>"

text \<open>No token, the input \<open>anything\<close>.\<close>

definition no_token_state :: app_state where
  "no_token_state =
     (App_init (Str (ascii ''http://x'')) Undefined working_storage)
       \<lparr>input := ascii ''anything''\<rparr>"

text \<open>\<open>ready_state\<close> after Send and a successful response: the stream is open.\<close>

definition streaming_state :: app_state where
  "streaming_state = run ready_state [SendClick, FetchSettled (Resolved ok_response)]"

definition denied_storage :: local_storage where
  "denied_storage = \<lparr>items = Map.empty, access_denied = True, quota_exceeded = False\<rparr>"

definition server_error :: response where
  "server_error = \<lparr>ok = False, status = 500, has_body = True\<rparr>"

definition fetch_failed :: js_error where
  "fetch_failed = \<lparr>err_name = ascii ''TypeError'', err_message = ascii ''Failed to fetch''\<rparr>"

section \<open>Lists, strings and runs\<close>

lemma dropWhile_all: "(\<forall>x \<in> set (dropWhile P xs). P x) \<longleftrightarrow> (\<forall>x \<in> set xs. P x)"
  by (induction xs) auto

lemma trim_empty_iff: "trim s = [] \<longleftrightarrow> (\<forall>c \<in> set s. is_white_space c)"
  by (simp add: trim_def dropWhile_eq_Nil_conv dropWhile_all)

lemma run_Nil: "run s [] = s"
  by (simp add: run_def)

lemma run_Cons: "run s (ev # evs) = run (step s ev) evs"
  by (simp add: run_def)

lemma run_append: "run s (evs @ evs') = run (run s evs) evs'"
  by (simp add: run_def)

lemma ready_state_fields:
  "apiBase ready_state = ascii ''http://x''" "token ready_state = ascii ''t''"
  "input ready_state = ascii ''hello''" "\<not> isSending ready_state" "\<not> crashed ready_state"
  "messages ready_state = [\<lparr>role = Assistant, content = welcome_text\<rparr>]"
  "task ready_state = Idle" "error ready_state = []" "abortRef ready_state = None"
  by (simp_all add: ready_state_def App_init_def useLocalStorage_init_def getItem_def
      working_storage_def ascii_def)

lemma canSend_ready_state: "canSend ready_state"
  by (simp add: canSend_def ready_state_fields) (simp add: trim_def is_white_space_def ascii_def)

section \<open>The guard\<close>

text \<open>
  C2. \<open>canSend\<close> is false exactly when the endpoint base is empty, or the token is
  empty, or the trimmed input is empty, or a send is in progress; otherwise it is true.
\<close>

theorem canSend_false_iff:
  "\<not> canSend s \<longleftrightarrow> (apiBase s = [] \<or> token s = [] \<or> trim (input s) = [] \<or> isSending s)"
  by (auto simp add: canSend_def)

text \<open>
  C3. When \<open>canSend\<close> is false, \<open>send\<close> returns at its guard: the whole state
  is unchanged, in particular the transcript, the input, the error, the sending flag
  and the list of requests issued.
\<close>

theorem send_noop:
  "\<not> canSend s \<Longrightarrow>
     send s = s \<and> step s SendClick = s \<and> messages (send s) = messages s \<and>
     input (send s) = input s \<and> error (send s) = error s \<and>
     isSending (send s) = isSending s \<and> requests (send s) = requests s"
  by (simp add: send_def step_def)

theorem send_noop_witness:
  "token no_token_state = [] \<and> \<not> canSend no_token_state \<and>
   send no_token_state = no_token_state \<and>
   requests (send no_token_state) = requests no_token_state"
proof -
  have t: "token no_token_state = []"
    by (simp add: no_token_state_def App_init_def useLocalStorage_init_def getItem_def
        working_storage_def)
  then have h: "\<not> canSend no_token_state"
    by (simp add: canSend_def)
  from send_noop [OF h] t h show ?thesis by simp
qed

section \<open>Arithmetic of the decoder\<close>

lemma and_0x1F: "(x::nat) AND 0x1F = x mod 32"
  using take_bit_eq_mask[of 5 x] by (simp add: take_bit_eq_mod mask_eq_exp_minus_1)

lemma and_0xF: "(x::nat) AND 0xF = x mod 16"
  using take_bit_eq_mask[of 4 x] by (simp add: take_bit_eq_mod mask_eq_exp_minus_1)

lemma and_0x7: "(x::nat) AND 0x7 = x mod 8"
  using take_bit_eq_mask[of 3 x] by (simp add: take_bit_eq_mod mask_eq_exp_minus_1)

lemma shift_or: "push_bit 6 (c::nat) OR (b AND 0x3F) = c * 64 + b mod 64"
proof -
  have "push_bit 6 c AND take_bit 6 b = 0"
    by (rule bit_eqI) (auto simp add: bit_simps)
  then have "push_bit 6 c + take_bit 6 b = push_bit 6 c OR take_bit 6 b"
    by (rule disjunctive_add_eq_or)
  moreover have "b AND 0x3F = take_bit 6 b"
    using take_bit_eq_mask[of 6 b] by (simp add: mask_eq_exp_minus_1)
  ultimately show ?thesis
    by (simp add: push_bit_eq_mult take_bit_eq_mod)
qed

lemma mod_offset: "(q::nat) < m \<Longrightarrow> (k * m + q) mod m = q"
  by simp

lemma cont_byte:
  "0x80 \<le> 0x80 + (r::nat) mod 64" "0x80 + (r::nat) mod 64 \<le> 0xBF"
  "(0x80 + r mod 64) mod 64 = r mod 64"
  using mod_offset[of "r mod 64" 64 2] by simp_all

lemma join2: "(cp::nat) div 64 * 64 + cp mod 64 = cp"
  by simp

lemma join3: "((cp::nat) div 4096 * 64 + cp div 64 mod 64) * 64 + cp mod 64 = cp"
proof -
  have "cp div 4096 = cp div 64 div 64" by (simp add: div_mult2_eq)
  then show ?thesis by simp
qed

lemma join4:
  "(((cp::nat) div 262144 * 64 + cp div 4096 mod 64) * 64 + cp div 64 mod 64) * 64 + cp mod 64
     = cp"
proof -
  have "cp div 4096 = cp div 64 div 64" by (simp add: div_mult2_eq)
  moreover have "cp div 262144 = cp div 64 div 64 div 64" by (simp add: div_mult2_eq)
  ultimately show ?thesis by simp
qed

section \<open>The handler, case by case\<close>

lemma handler_lead2:
  "bytes_needed d = 0 \<Longrightarrow> 0xC2 \<le> b \<Longrightarrow> b \<le> 0xDF \<Longrightarrow>
   utf8_handler d b = (d\<lparr>bytes_needed := 1, code_point := b mod 32\<rparr>, [])"
  by (simp add: utf8_handler_def utf8_lead_def and_0x1F)

lemma handler_lead3:
  "bytes_needed d = 0 \<Longrightarrow> 0xE0 \<le> b \<Longrightarrow> b \<le> 0xEF \<Longrightarrow>
   utf8_handler d b =
     (d\<lparr>lower_boundary := (if b = 0xE0 then 0xA0 else lower_boundary d),
        upper_boundary := (if b = 0xED then 0x9F else upper_boundary d),
        bytes_needed := 2, code_point := b mod 16\<rparr>, [])"
  by (simp add: utf8_handler_def utf8_lead_def and_0xF)

lemma handler_lead4:
  "bytes_needed d = 0 \<Longrightarrow> 0xF0 \<le> b \<Longrightarrow> b \<le> 0xF4 \<Longrightarrow>
   utf8_handler d b =
     (d\<lparr>lower_boundary := (if b = 0xF0 then 0x90 else lower_boundary d),
        upper_boundary := (if b = 0xF4 then 0x8F else upper_boundary d),
        bytes_needed := 3, code_point := b mod 8\<rparr>, [])"
  by (simp add: utf8_handler_def utf8_lead_def and_0x7)

lemma handler_cont:
  "bytes_needed d \<noteq> 0 \<Longrightarrow> lower_boundary d \<le> b \<Longrightarrow> b \<le> upper_boundary d \<Longrightarrow>
   bytes_seen d + 1 \<noteq> bytes_needed d \<Longrightarrow>
   utf8_handler d b =
     (d\<lparr>lower_boundary := 0x80, upper_boundary := 0xBF,
        code_point := code_point d * 64 + b mod 64, bytes_seen := bytes_seen d + 1\<rparr>, [])"
  by (simp add: utf8_handler_def shift_or Let_def)

lemma handler_last:
  "bytes_needed d \<noteq> 0 \<Longrightarrow> lower_boundary d \<le> b \<Longrightarrow> b \<le> upper_boundary d \<Longrightarrow>
   bytes_seen d + 1 = bytes_needed d \<Longrightarrow>
   utf8_handler d b =
     (d\<lparr>lower_boundary := 0x80, upper_boundary := 0xBF,
        code_point := 0, bytes_needed := 0, bytes_seen := 0\<rparr>, [code_point d * 64 + b mod 64])"
  by (simp add: utf8_handler_def shift_or Let_def)

section \<open>Decoding the encoding of one scalar value\<close>

lemma utf8_run_two_bytes:
  assumes "0x80 \<le> cp" "cp < 0x800"
  shows "utf8_run (new_TextDecoder\<lparr>bom_seen := seen\<rparr>) (utf8_encode cp)
           = (new_TextDecoder\<lparr>bom_seen := seen\<rparr>, [cp])"
proof -
  define b1 where "b1 = 0xC0 + cp div 0x40"
  define b2 where "b2 = 0x80 + cp mod 0x40"
  define d0 where "d0 = new_TextDecoder\<lparr>bom_seen := seen\<rparr>"
  define d1 where "d1 = d0\<lparr>bytes_needed := 1, code_point := b1 mod 32\<rparr>"
  have q: "cp div 64 < 32" "2 \<le> cp div 64" using assms by simp_all
  have r1: "0xC2 \<le> b1" "b1 \<le> 0xDF" using q by (simp_all add: b1_def)
  have m1: "b1 mod 32 = cp div 64"
    using mod_offset[of "cp div 64" 32 6] q by (simp add: b1_def)
  have r2: "0x80 \<le> b2" "b2 \<le> 0xBF" "b2 mod 64 = cp mod 64"
    using cont_byte[of cp] by (simp_all add: b2_def)
  have enc: "utf8_encode cp = [b1, b2]"
    using assms by (simp add: utf8_encode_def b1_def b2_def)
  have h1: "utf8_handler d0 b1 = (d1, [])"
    unfolding d1_def by (rule handler_lead2) (use r1 in \<open>simp_all add: d0_def new_TextDecoder_def\<close>)
  have h2: "utf8_handler d1 b2 = (d0, [cp])"
    using handler_last[of d1 b2] r2 m1 join2[of cp]
    by (simp add: d1_def d0_def new_TextDecoder_def)
  show ?thesis
    unfolding enc d0_def[symmetric] by (simp add: h1 h2)
qed


lemma utf8_run_three_bytes:
  assumes "0x800 \<le> cp" "cp < 0x10000" "\<not> (0xD800 \<le> cp \<and> cp \<le> 0xDFFF)"
  shows "utf8_run (new_TextDecoder\<lparr>bom_seen := seen\<rparr>) (utf8_encode cp)
           = (new_TextDecoder\<lparr>bom_seen := seen\<rparr>, [cp])"
proof -
  define q1 where "q1 = cp div 0x1000"
  define q2 where "q2 = cp div 0x40 mod 0x40"
  define b1 where "b1 = 0xE0 + q1"
  define b2 where "b2 = 0x80 + q2"
  define b3 where "b3 = 0x80 + cp mod 0x40"
  define lo where "lo = (if b1 = 0xE0 then 0xA0 else (0x80::nat))"
  define hi where "hi = (if b1 = 0xED then 0x9F else (0xBF::nat))"
  define d0 where "d0 = new_TextDecoder\<lparr>bom_seen := seen\<rparr>"
  define d1 where "d1 = d0\<lparr>lower_boundary := lo, upper_boundary := hi,
                          bytes_needed := 2, code_point := q1\<rparr>"
  define d2 where "d2 = d0\<lparr>bytes_needed := 2, code_point := q1 * 64 + q2, bytes_seen := 1\<rparr>"
  have q: "q1 < 16" using assms by (simp add: q1_def)
  have r1: "0xE0 \<le> b1" "b1 \<le> 0xEF" using q by (simp_all add: b1_def)
  have m1: "b1 mod 16 = q1"
    using mod_offset[of q1 16 14] q by (simp add: b1_def)
  have q2: "q2 < 64" by (simp add: q2_def)
  have lo: "lo \<le> b2"
  proof (cases "b1 = 0xE0")
    case True
    then have "q1 = 0" by (simp add: b1_def)
    then have "cp < 0x1000" by (simp add: q1_def)
    with assms(1) have "32 \<le> cp div 64" "cp div 64 < 64" by simp_all
    then have "32 \<le> q2" by (simp add: q2_def)
    with True show ?thesis by (simp add: lo_def b2_def)
  next
    case False
    then show ?thesis by (simp add: lo_def b2_def)
  qed
  have hi: "b2 \<le> hi"
  proof (cases "b1 = 0xED")
    case True
    then have "q1 = 13" by (simp add: b1_def)
    then have "0xD000 \<le> cp" "cp < 0xE000" by (simp_all add: q1_def)
    with assms(3) have "cp < 0xD800" by simp
    with \<open>0xD000 \<le> cp\<close> have "832 \<le> cp div 64" "cp div 64 < 864" by simp_all
    then obtain r where r: "cp div 64 = 13 * 64 + r" "r < 32"
      by (auto simp add: le_iff_add)
    have "q2 < 32" using mod_offset[of r 64 13] r by (simp add: q2_def)
    with True show ?thesis by (simp add: hi_def b2_def)
  next
    case False
    with q2 show ?thesis by (simp add: hi_def b2_def)
  qed
  have m2: "b2 mod 64 = q2"
    using cont_byte(3)[of "cp div 64"] by (simp add: b2_def q2_def)
  have r3: "0x80 \<le> b3" "b3 \<le> 0xBF" "b3 mod 64 = cp mod 64"
    using cont_byte[of cp] by (simp_all add: b3_def)
  have enc: "utf8_encode cp = [b1, b2, b3]"
    using assms by (simp add: utf8_encode_def b1_def b2_def b3_def q1_def q2_def)
  have h1: "utf8_handler d0 b1 = (d1, [])"
    using handler_lead3[of d0 b1] r1 m1
    by (simp add: d1_def d0_def lo_def hi_def new_TextDecoder_def)
  have h2: "utf8_handler d1 b2 = (d2, [])"
    using handler_cont[of d1 b2] lo hi m2
    by (simp add: d1_def d2_def d0_def new_TextDecoder_def)
  have h3: "utf8_handler d2 b3 = (d0, [cp])"
    using handler_last[of d2 b3] r3 join3[of cp]
    by (simp add: d2_def d0_def new_TextDecoder_def q1_def q2_def)
  show ?thesis
    unfolding enc d0_def[symmetric] by (simp add: h1 h2 h3)
qed

lemma utf8_run_four_bytes:
  assumes "0x10000 \<le> cp" "cp \<le> 0x10FFFF"
  shows "utf8_run (new_TextDecoder\<lparr>bom_seen := seen\<rparr>) (utf8_encode cp)
           = (new_TextDecoder\<lparr>bom_seen := seen\<rparr>, [cp])"
proof -
  define q1 where "q1 = cp div 0x40000"
  define q2 where "q2 = cp div 0x1000 mod 0x40"
  define q3 where "q3 = cp div 0x40 mod 0x40"
  define b1 where "b1 = 0xF0 + q1"
  define b2 where "b2 = 0x80 + q2"
  define b3 where "b3 = 0x80 + q3"
  define b4 where "b4 = 0x80 + cp mod 0x40"
  define lo where "lo = (if b1 = 0xF0 then 0x90 else (0x80::nat))"
  define hi where "hi = (if b1 = 0xF4 then 0x8F else (0xBF::nat))"
  define d0 where "d0 = new_TextDecoder\<lparr>bom_seen := seen\<rparr>"
  define d1 where "d1 = d0\<lparr>lower_boundary := lo, upper_boundary := hi,
                          bytes_needed := 3, code_point := q1\<rparr>"
  define d2 where "d2 = d0\<lparr>bytes_needed := 3, code_point := q1 * 64 + q2, bytes_seen := 1\<rparr>"
  define d3 where "d3 = d0\<lparr>bytes_needed := 3, code_point := (q1 * 64 + q2) * 64 + q3,
                          bytes_seen := 2\<rparr>"
  have q: "q1 \<le> 4" using assms by (simp add: q1_def)
  have r1: "0xF0 \<le> b1" "b1 \<le> 0xF4" using q by (simp_all add: b1_def)
  have m1: "b1 mod 8 = q1"
    using mod_offset[of q1 8 30] q by (simp add: b1_def)
  have q2: "q2 < 64" by (simp add: q2_def)
  have lo: "lo \<le> b2"
  proof (cases "b1 = 0xF0")
    case True
    then have "q1 = 0" by (simp add: b1_def)
    then have "cp < 0x40000" by (simp add: q1_def)
    with assms(1) have "16 \<le> cp div 4096" "cp div 4096 < 64" by simp_all
    then have "16 \<le> q2" by (simp add: q2_def)
    with True show ?thesis by (simp add: lo_def b2_def)
  next
    case False
    then show ?thesis by (simp add: lo_def b2_def)
  qed
  have hi: "b2 \<le> hi"
  proof (cases "b1 = 0xF4")
    case True
    then have "q1 = 4" by (simp add: b1_def)
    then have "0x100000 \<le> cp" by (simp add: q1_def)
    with assms(2) have "256 \<le> cp div 4096" "cp div 4096 < 272" by simp_all
    then obtain r where r: "cp div 4096 = 4 * 64 + r" "r < 16"
      by (auto simp add: le_iff_add)
    have "q2 < 16" using mod_offset[of r 64 4] r by (simp add: q2_def)
    with True show ?thesis by (simp add: hi_def b2_def)
  next
    case False
    with q2 show ?thesis by (simp add: hi_def b2_def)
  qed
  have m2: "b2 mod 64 = q2"
    using cont_byte(3)[of "cp div 4096"] by (simp add: b2_def q2_def)
  have r3: "0x80 \<le> b3" "b3 \<le> 0xBF" "b3 mod 64 = q3"
    using cont_byte[of "cp div 64"] by (simp_all add: b3_def q3_def)
  have r4: "0x80 \<le> b4" "b4 \<le> 0xBF" "b4 mod 64 = cp mod 64"
    using cont_byte[of cp] by (simp_all add: b4_def)
  have enc: "utf8_encode cp = [b1, b2, b3, b4]"
    using assms by (simp add: utf8_encode_def b1_def b2_def b3_def b4_def q1_def q2_def q3_def)
  have h1: "utf8_handler d0 b1 = (d1, [])"
    using handler_lead4[of d0 b1] r1 m1
    by (simp add: d1_def d0_def lo_def hi_def new_TextDecoder_def)
  have h2: "utf8_handler d1 b2 = (d2, [])"
    using handler_cont[of d1 b2] lo hi m2
    by (simp add: d1_def d2_def d0_def new_TextDecoder_def)
  have h3: "utf8_handler d2 b3 = (d3, [])"
    using handler_cont[of d2 b3] r3
    by (simp add: d2_def d3_def d0_def new_TextDecoder_def)
  have h4: "utf8_handler d3 b4 = (d0, [cp])"
    using handler_last[of d3 b4] r4 join4[of cp]
    by (simp add: d3_def d0_def new_TextDecoder_def q1_def q2_def q3_def)
  show ?thesis
    unfolding enc d0_def[symmetric] by (simp add: h1 h2 h3 h4)
qed

lemma utf8_run_encode:
  assumes "is_scalar_value cp" "0x80 \<le> cp"
  shows "utf8_run (new_TextDecoder\<lparr>bom_seen := seen\<rparr>) (utf8_encode cp)
           = (new_TextDecoder\<lparr>bom_seen := seen\<rparr>, [cp])"
proof -
  consider "cp < 0x800" | "0x800 \<le> cp" "cp < 0x10000" | "0x10000 \<le> cp"
    by linarith
  then show ?thesis
  proof cases
    case 1
    with assms(2) show ?thesis by (simp add: utf8_run_two_bytes)
  next
    case 2
    with assms(1) show ?thesis by (intro utf8_run_three_bytes) (simp_all add: is_scalar_value_def)
  next
    case 3
    with assms(1) show ?thesis by (intro utf8_run_four_bytes) (simp_all add: is_scalar_value_def)
  qed
qed


section \<open>Chunk boundaries do not matter to the decoder\<close>

lemma utf8_run_append:
  "utf8_run d (xs @ ys) =
     (fst (utf8_run (fst (utf8_run d xs)) ys), snd (utf8_run d xs) @ snd (utf8_run (fst (utf8_run d xs)) ys))"
  by (induction xs arbitrary: d) (simp_all add: split_def Let_def)

lemma serialize_append:
  "serialize seen (xs @ ys) =
     (fst (serialize seen xs) @ fst (serialize (snd (serialize seen xs)) ys),
      snd (serialize (snd (serialize seen xs)) ys))"
  by (induction xs arbitrary: seen) (simp_all add: split_def Let_def)

lemma utf8_lead_bom:
  "utf8_lead (d\<lparr>bom_seen := b\<rparr>) x = (fst (utf8_lead d x)\<lparr>bom_seen := b\<rparr>, snd (utf8_lead d x))"
  by (simp add: utf8_lead_def)

lemma utf8_handler_bom:
  "utf8_handler (d\<lparr>bom_seen := b\<rparr>) x
     = (fst (utf8_handler d x)\<lparr>bom_seen := b\<rparr>, snd (utf8_handler d x))"
  by (simp add: utf8_handler_def utf8_lead_def Let_def)

lemma utf8_run_bom:
  "utf8_run (d\<lparr>bom_seen := b\<rparr>) xs = (fst (utf8_run d xs)\<lparr>bom_seen := b\<rparr>, snd (utf8_run d xs))"
  by (induction xs arbitrary: d) (simp_all add: split_def Let_def utf8_handler_bom)

lemma utf8_handler_keeps_bom: "bom_seen (fst (utf8_handler d x)) = bom_seen d"
  by (simp add: utf8_handler_def utf8_lead_def Let_def)

lemma utf8_run_keeps_bom: "bom_seen (fst (utf8_run d xs)) = bom_seen d"
  by (induction xs arbitrary: d) (simp_all add: split_def Let_def utf8_handler_keeps_bom)

lemma decode_unfold:
  "decode d bs =
     (fst (serialize (bom_seen d) (snd (utf8_run d bs))),
      fst (utf8_run d bs)\<lparr>bom_seen := snd (serialize (bom_seen d) (snd (utf8_run d bs)))\<rparr>)"
  by (simp add: decode_def split_def Let_def utf8_run_keeps_bom)

lemma decode_append:
  "decode d (xs @ ys) =
     (fst (decode d xs) @ fst (decode (snd (decode d xs)) ys), snd (decode (snd (decode d xs)) ys))"
  by (simp add: decode_unfold utf8_run_append serialize_append utf8_run_bom)

lemma decode_Nil: "decode d [] = ([], d)"
  by (simp add: decode_def)

lemma chunk_texts_concat:
  "concat (chunk_texts d chunks) = fst (decode d (concat chunks))"
  by (induction chunks arbitrary: d) (simp_all add: decode_append decode_Nil)

lemma decode_encode:
  assumes "is_scalar_value cp" "0x80 \<le> cp"
  shows "decode (new_TextDecoder\<lparr>bom_seen := seen\<rparr>) (utf8_encode cp)
           = (if cp = 0xFEFF \<and> \<not> seen then [] else utf16 cp, new_TextDecoder\<lparr>bom_seen := True\<rparr>)"
  by (simp add: decode_def utf8_run_encode[OF assms])


section \<open>The streaming loop\<close>

lemma append_chunk_snoc:
  "append_chunk c (ms @ [m]) = Inr (ms @ [\<lparr>role = Assistant, content = content m @ c\<rparr>])"
  by (simp add: append_chunk_def)

lemma append_chunk_nonempty:
  "m \<noteq> [] \<Longrightarrow>
   append_chunk c m = Inr (butlast m @ [\<lparr>role = Assistant, content = content (last m) @ c\<rparr>])"
  using append_chunk_snoc[of c "butlast m" "last m"] by simp

lemma step_read_chunk:
  assumes "task s = Reading d" "\<not> crashed s" "messages s = ms @ [m]"
  shows "step s (ReadSettled (Resolved (ReadResult (Some bs) dn))) =
           (let s1 = s\<lparr>messages := ms @ [\<lparr>role = Assistant,
                                             content = content m @ fst (decode d bs)\<rparr>],
                       task := Reading (snd (decode d bs))\<rparr>
            in if dn then send_finally s1 else s1)"
  using assms by (simp add: step_def send_read_settled_def append_chunk_snoc split_def Let_def)

lemma run_read_chunks:
  assumes "task s = Reading d" "\<not> crashed s" "messages s = ms @ [m]" "role m = Assistant"
  shows "run s (map read_chunk chunks) =
           s\<lparr>messages := ms @ [\<lparr>role = Assistant,
                                 content = content m @ concat (chunk_texts d chunks)\<rparr>],
             task := Reading (decoder_after d chunks)\<rparr>"
  using assms
proof (induction chunks arbitrary: s d m)
  case Nil
  then show ?case by (simp add: run_Nil)
next
  case (Cons bs chunks)
  let ?m = "\<lparr>role = Assistant, content = content m @ fst (decode d bs)\<rparr>"
  let ?s = "s\<lparr>messages := ms @ [?m], task := Reading (snd (decode d bs))\<rparr>"
  have st: "step s (read_chunk bs) = ?s"
    using step_read_chunk[OF Cons.prems(1-3), of bs False] by simp
  have "run ?s (map read_chunk chunks) =
          ?s\<lparr>messages := ms @ [\<lparr>role = Assistant,
                 content = content ?m @ concat (chunk_texts (snd (decode d bs)) chunks)\<rparr>],
             task := Reading (decoder_after (snd (decode d bs)) chunks)\<rparr>"
    by (rule Cons.IH) (use Cons.prems in simp_all)
  then show ?case
    by (simp add: run_Cons st)
qed

lemma send_state:
  assumes "canSend s"
  shows "send s =
           s\<lparr>error := [],
             messages := messages s @ [\<lparr>role = User, content = input s\<rparr>,
                                       \<lparr>role = Assistant, content = []\<rparr>],
             input := [],
             signals := signals s @ [False],
             abortRef := Some (length (signals s)),
             isSending := True,
             requests := requests s @
               [\<lparr>url = apiBase s @ ascii ''/generate_stream'',
                 http_method = ascii ''POST'',
                 headers = [(ascii ''Content-Type'', ascii ''application/json''),
                            (ascii ''Authorization'', ascii ''Bearer '' @ token s)],
                 body = JsonPrompt (input s),
                 signal = Some (length (signals s))\<rparr>],
             task := AwaitFetch\<rparr>"
  using assms by (simp add: send_def Let_def)

lemma start_stream:
  assumes "canSend s" "\<not> crashed s" "ok res" "has_body res"
  shows "run s [SendClick, FetchSettled (Resolved res)] =
           (send s)\<lparr>task := Reading new_TextDecoder\<rparr>"
  using assms by (simp add: run_Cons run_Nil step_def send_state send_fetch_settled_def)

lemma run_stream:
  assumes "canSend s" "\<not> crashed s" "ok res" "has_body res"
  shows "run s ([SendClick, FetchSettled (Resolved res)] @ map read_chunk chunks) =
           (send s)\<lparr>messages := messages s @ [\<lparr>role = User, content = input s\<rparr>,
                        \<lparr>role = Assistant, content = concat (chunk_texts new_TextDecoder chunks)\<rparr>],
                    task := Reading (decoder_after new_TextDecoder chunks)\<rparr>"
proof -
  let ?s1 = "(send s)\<lparr>task := Reading new_TextDecoder\<rparr>"
  let ?ms = "messages s @ [\<lparr>role = User, content = input s\<rparr>]"
  have s1: "task ?s1 = Reading new_TextDecoder" "\<not> crashed ?s1"
    "messages ?s1 = ?ms @ [\<lparr>role = Assistant, content = []\<rparr>]"
    using assms by (simp_all add: send_state)
  have "run ?s1 (map read_chunk chunks) =
          ?s1\<lparr>messages := ?ms @ [\<lparr>role = Assistant,
                  content = content \<lparr>role = Assistant, content = []\<rparr>
                            @ concat (chunk_texts new_TextDecoder chunks)\<rparr>],
               task := Reading (decoder_after new_TextDecoder chunks)\<rparr>"
    by (rule run_read_chunks) (use s1 in simp_all)
  then have "run ?s1 (map read_chunk chunks) =
           (send s)\<lparr>messages := messages s @ [\<lparr>role = User, content = input s\<rparr>,
                        \<lparr>role = Assistant, content = concat (chunk_texts new_TextDecoder chunks)\<rparr>],
                    task := Reading (decoder_after new_TextDecoder chunks)\<rparr>"
    by simp
  then show ?thesis
    by (simp only: run_append start_stream[OF assms])
qed

lemma streaming_state_fields:
  "task streaming_state = Reading new_TextDecoder" "\<not> crashed streaming_state"
  "messages streaming_state = [\<lparr>role = Assistant, content = welcome_text\<rparr>,
       \<lparr>role = User, content = ascii ''hello''\<rparr>] @ [\<lparr>role = Assistant, content = []\<rparr>]"
  "isSending streaming_state"
proof -
  have r: "ok ok_response" "has_body ok_response" by (simp_all add: ok_response_def)
  note st = start_stream[OF canSend_ready_state ready_state_fields(5) r]
  show "task streaming_state = Reading new_TextDecoder" "\<not> crashed streaming_state"
    "messages streaming_state = [\<lparr>role = Assistant, content = welcome_text\<rparr>,
       \<lparr>role = User, content = ascii ''hello''\<rparr>] @ [\<lparr>role = Assistant, content = []\<rparr>]"
    "isSending streaming_state"
    unfolding streaming_state_def st
    by (simp_all add: send_state[OF canSend_ready_state] ready_state_fields)
qed

lemma decode_example:
  "concat (chunk_texts new_TextDecoder [ascii ''Hi'', ascii '' there'']) = ascii ''Hi there''"
  by (simp add: decode_def utf8_handler_def utf8_lead_def new_TextDecoder_def utf16_def ascii_def)

section \<open>An open stream among other events\<close>

lemma decode_Hi:
  "decode new_TextDecoder (ascii ''Hi'') = (ascii ''Hi'', new_TextDecoder\<lparr>bom_seen := True\<rparr>)"
  by (simp add: decode_def utf8_handler_def utf8_lead_def new_TextDecoder_def utf16_def ascii_def)

lemma decode_there:
  "fst (decode (new_TextDecoder\<lparr>bom_seen := True\<rparr>) (ascii '' there'')) = ascii '' there''"
  by (simp add: decode_def utf8_handler_def utf8_lead_def new_TextDecoder_def utf16_def ascii_def)

lemma chunk_texts_append:
  "chunk_texts d (xs @ ys) = chunk_texts d xs @ chunk_texts (decoder_after d xs) ys"
  by (induction xs arbitrary: d) simp_all

lemma decoder_after_append:
  "decoder_after d (xs @ ys) = decoder_after (decoder_after d xs) ys"
  by (induction xs arbitrary: d) simp_all

lemma step_open_stream:
  assumes "task s = Reading d" "\<not> crashed s" "isSending s" "messages s = ms @ [m]"
    "role m = Assistant" "leaves_stream ev"
  shows "task (step s ev) = Reading (decoder_after d (chunk_of ev))
       \<and> \<not> crashed (step s ev) \<and> isSending (step s ev)
       \<and> messages (step s ev)
           = ms @ [\<lparr>role = Assistant, content = content m @ concat (chunk_texts d (chunk_of ev))\<rparr>]"
proof -
  have m: "\<lparr>role = Assistant, content = content m\<rparr> = m"
    using assms(5) by simp
  show ?thesis
  proof (cases ev)
    case (SetApiBase v)
    with assms m show ?thesis by (simp add: step_def setApiBase_def)
  next
    case (SetToken v)
    with assms m show ?thesis by (simp add: step_def setToken_def)
  next
    case ClearSettings
    with assms m show ?thesis
      by (simp add: step_def clearSettings_def setToken_def setApiBase_def split: sum.splits)
  next
    case (SetInput v)
    with assms m show ?thesis by (simp add: step_def)
  next
    case (KeyDown k sh)
    with assms m show ?thesis by (simp add: step_def onKeyDown_def send_def canSend_def)
  next
    case SendClick
    with assms m show ?thesis by (simp add: step_def send_def canSend_def)
  next
    case CancelClick
    with assms m show ?thesis by (simp add: step_def cancel_def split: option.splits)
  next
    case ResetChatClick
    with assms m show ?thesis by (simp add: step_def resetChat_def)
  next
    case (FetchSettled r)
    with assms m show ?thesis by (simp add: step_def)
  next
    case (ReadSettled r)
    show ?thesis
    proof (cases r)
      case (Rejected e)
      with ReadSettled assms(6) show ?thesis by simp
    next
      case (Resolved rr)
      obtain v dn where rr: "rr = ReadResult v dn" by (cases rr)
      with Resolved ReadSettled assms(6) have dn: "\<not> dn" by simp
      show ?thesis
      proof (cases v)
        case None
        with rr dn Resolved ReadSettled assms m show ?thesis
          by (simp add: step_def send_read_settled_def)
      next
        case (Some bs)
        with rr dn Resolved ReadSettled assms(1,2,3) show ?thesis
          using step_read_chunk[OF assms(1,2,4), of bs False] by simp
      qed
    qed
  next
    case (ResetSettled r)
    with assms m show ?thesis
      by (cases r) (simp_all add: step_def resetChat_settled_def resetChat_catch_def)
  qed
qed

lemma run_open_stream:
  assumes "task s = Reading d" "\<not> crashed s" "isSending s" "messages s = ms @ [m]"
    "role m = Assistant" "list_all leaves_stream evs"
  shows "task (run s evs) = Reading (decoder_after d (stream_chunks evs))
       \<and> \<not> crashed (run s evs) \<and> isSending (run s evs)
       \<and> messages (run s evs)
           = ms @ [\<lparr>role = Assistant,
                    content = content m @ concat (chunk_texts d (stream_chunks evs))\<rparr>]"
  using assms
proof (induction evs arbitrary: s d m)
  case Nil
  then show ?case by (simp add: run_Nil stream_chunks_def)
next
  case (Cons ev evs)
  let ?m = "\<lparr>role = Assistant, content = content m @ concat (chunk_texts d (chunk_of ev))\<rparr>"
  have ev: "leaves_stream ev" and evs: "list_all leaves_stream evs"
    using Cons.prems(6) by simp_all
  note st = step_open_stream[OF Cons.prems(1-5) ev]
  have "task (run (step s ev) evs)
          = Reading (decoder_after (decoder_after d (chunk_of ev)) (stream_chunks evs))
       \<and> \<not> crashed (run (step s ev) evs) \<and> isSending (run (step s ev) evs)
       \<and> messages (run (step s ev) evs)
           = ms @ [\<lparr>role = Assistant,
                    content = content ?m @ concat (chunk_texts (decoder_after d (chunk_of ev))
                                                   (stream_chunks evs))\<rparr>]"
    by (rule Cons.IH) (use st evs in simp_all)
  then show ?case
    by (simp add: run_Cons stream_chunks_def chunk_texts_append decoder_after_append)
qed

lemma stream_chunks_snoc: "stream_chunks (evs @ [ev]) = stream_chunks evs @ chunk_of ev"
  by (simp add: stream_chunks_def)

lemma step_await_fetch:
  assumes "task s = AwaitFetch" "\<not> crashed s" "isSending s"
    "leaves_stream ev" "not_fetch_settled ev"
  shows "task (step s ev) = AwaitFetch \<and> \<not> crashed (step s ev) \<and> isSending (step s ev)
       \<and> messages (step s ev) = messages s"
proof (cases ev)
  case (SetApiBase v)
  with assms show ?thesis by (simp add: step_def setApiBase_def)
next
  case (SetToken v)
  with assms show ?thesis by (simp add: step_def setToken_def)
next
  case ClearSettings
  with assms show ?thesis
    by (simp add: step_def clearSettings_def setToken_def setApiBase_def split: sum.splits)
next
  case (SetInput v)
  with assms show ?thesis by (simp add: step_def)
next
  case (KeyDown k sh)
  with assms show ?thesis by (simp add: step_def onKeyDown_def send_def canSend_def)
next
  case SendClick
  with assms show ?thesis by (simp add: step_def send_def canSend_def)
next
  case CancelClick
  with assms show ?thesis by (simp add: step_def cancel_def split: option.splits)
next
  case ResetChatClick
  with assms show ?thesis by (simp add: step_def resetChat_def)
next
  case (FetchSettled r)
  with assms show ?thesis by simp
next
  case (ReadSettled r)
  with assms show ?thesis by (simp add: step_def)
next
  case (ResetSettled r)
  with assms show ?thesis
    by (cases r) (simp_all add: step_def resetChat_settled_def resetChat_catch_def)
qed

lemma run_await_fetch:
  assumes "task s = AwaitFetch" "\<not> crashed s" "isSending s"
    "list_all leaves_stream evs" "list_all not_fetch_settled evs"
  shows "task (run s evs) = AwaitFetch \<and> \<not> crashed (run s evs) \<and> isSending (run s evs)
       \<and> messages (run s evs) = messages s"
  using assms
proof (induction evs arbitrary: s)
  case Nil
  then show ?case by (simp add: run_Nil)
next
  case (Cons ev evs)
  have ev: "leaves_stream ev" "not_fetch_settled ev"
    and evs: "list_all leaves_stream evs" "list_all not_fetch_settled evs"
    using Cons.prems(4,5) by simp_all
  note st = step_await_fetch[OF Cons.prems(1-3) ev]
  have "task (run (step s ev) evs) = AwaitFetch \<and> \<not> crashed (run (step s ev) evs)
       \<and> isSending (run (step s ev) evs) \<and> messages (run (step s ev) evs) = messages (step s ev)"
    by (rule Cons.IH) (use st evs in simp_all)
  with st show ?case by (simp add: run_Cons)
qed

lemma run_send_to_end:
  assumes "canSend s" "\<not> crashed s" "ok res" "has_body res"
    and "list_all leaves_stream evs0" "list_all not_fetch_settled evs0"
    and "list_all leaves_stream evs"
  shows "task (run s (SendClick # evs0 @ FetchSettled (Resolved res) # evs))
           = Reading (decoder_after new_TextDecoder (stream_chunks evs))
       \<and> \<not> crashed (run s (SendClick # evs0 @ FetchSettled (Resolved res) # evs))
       \<and> isSending (run s (SendClick # evs0 @ FetchSettled (Resolved res) # evs))
       \<and> messages (run s (SendClick # evs0 @ FetchSettled (Resolved res) # evs))
           = (messages s @ [\<lparr>role = User, content = input s\<rparr>])
             @ [\<lparr>role = Assistant,
                 content = concat (chunk_texts new_TextDecoder (stream_chunks evs))\<rparr>]"
proof -
  let ?s0 = "step s SendClick"
  have s0: "task ?s0 = AwaitFetch" "\<not> crashed ?s0" "isSending ?s0"
    "messages ?s0 = messages s @ [\<lparr>role = User, content = input s\<rparr>,
                                  \<lparr>role = Assistant, content = []\<rparr>]"
    using assms(1,2) by (simp_all add: step_def send_state)
  let ?s1 = "run ?s0 evs0"
  note s1 = run_await_fetch[OF s0(1-3) assms(5,6)]
  let ?s2 = "step ?s1 (FetchSettled (Resolved res))"
  have s2: "task ?s2 = Reading new_TextDecoder" "\<not> crashed ?s2" "isSending ?s2"
    "messages ?s2 = (messages s @ [\<lparr>role = User, content = input s\<rparr>])
                      @ [\<lparr>role = Assistant, content = []\<rparr>]"
    using s1 s0(4) assms(3,4) by (simp_all add: step_def send_fetch_settled_def)
  have m: "role \<lparr>role = Assistant, content = []\<rparr> = Assistant" by simp
  have eq: "run s (SendClick # evs0 @ FetchSettled (Resolved res) # evs) = run ?s2 evs"
    by (simp add: run_Cons run_append)
  from run_open_stream[OF s2 m assms(7)] show ?thesis
    unfolding eq by simp
qed

section \<open>What every execution preserves\<close>

text \<open>
  The transcript is never empty and ends with an assistant entry, so the updater of a
  chunk never throws; when no \<open>send\<close> is suspended the sending flag is off and
  \<open>abortRef\<close> is null; while one is suspended the flag is on, a second \<open>send\<close> returns at
  its guard, and \<open>abortRef\<close> holds its controller.
\<close>

lemma step_keeps_transcript:
  assumes "messages s \<noteq> []" "role (last (messages s)) = Assistant" "\<not> crashed s"
  shows "messages (step s ev) \<noteq> [] \<and> role (last (messages (step s ev))) = Assistant
         \<and> \<not> crashed (step s ev)"
proof (cases ev)
  case (SetApiBase v)
  with assms show ?thesis by (simp add: step_def setApiBase_def)
next
  case (SetToken v)
  with assms show ?thesis by (simp add: step_def setToken_def)
next
  case ClearSettings
  with assms show ?thesis
    by (simp add: step_def clearSettings_def setToken_def setApiBase_def split: sum.splits)
next
  case (SetInput v)
  with assms show ?thesis by (simp add: step_def)
next
  case (KeyDown k sh)
  with assms show ?thesis by (simp add: step_def onKeyDown_def send_def Let_def)
next
  case SendClick
  with assms show ?thesis by (simp add: step_def send_def Let_def)
next
  case CancelClick
  with assms show ?thesis by (simp add: step_def cancel_def split: option.splits)
next
  case ResetChatClick
  with assms show ?thesis by (simp add: step_def resetChat_def)
next
  case (FetchSettled r)
  with assms show ?thesis
    by (simp add: step_def send_fetch_settled_def send_finally_def send_catch_def
        split: send_task.splits settled.splits)
next
  case (ReadSettled r)
  with assms show ?thesis
    by (simp add: step_def send_read_settled_def send_finally_def send_catch_def Let_def
        split_def append_chunk_nonempty
        split: send_task.splits settled.splits read_result.splits option.splits)
next
  case (ResetSettled r)
  with assms show ?thesis
    by (simp add: step_def resetChat_settled_def resetChat_catch_def split: settled.splits)
qed

lemma run_keeps_transcript:
  assumes "messages s \<noteq> []" "role (last (messages s)) = Assistant" "\<not> crashed s"
  shows "messages (run s evs) \<noteq> [] \<and> role (last (messages (run s evs))) = Assistant
         \<and> \<not> crashed (run s evs)"
  using assms
proof (induction evs arbitrary: s)
  case Nil
  then show ?case by (simp add: run_Nil)
next
  case (Cons ev evs)
  from step_keeps_transcript[OF Cons.prems, of ev] show ?case
    unfolding run_Cons by (intro Cons.IH) simp_all
qed

lemma App_init_transcript:
  "messages (App_init b t st) \<noteq> [] \<and> role (last (messages (App_init b t st))) = Assistant
   \<and> \<not> crashed (App_init b t st) \<and> task (App_init b t st) = Idle
   \<and> \<not> isSending (App_init b t st) \<and> abortRef (App_init b t st) = None"
  by (simp add: App_init_def Let_def)

lemma step_keeps_inflight:
  assumes "task s \<noteq> Idle \<longrightarrow> isSending s \<and> (\<exists>c. abortRef s = Some c \<and> c < length (signals s))"
  shows "task (step s ev) \<noteq> Idle \<longrightarrow>
           isSending (step s ev) \<and> (\<exists>c. abortRef (step s ev) = Some c \<and> c < length (signals (step s ev)))"
proof (cases "crashed s")
  case True
  with assms show ?thesis by (simp add: step_def)
next
  case False
  show ?thesis
  proof (cases ev)
    case (SetApiBase v)
    with False assms show ?thesis by (simp add: step_def setApiBase_def)
  next
    case (SetToken v)
    with False assms show ?thesis by (simp add: step_def setToken_def)
  next
    case ClearSettings
    with False assms show ?thesis
      by (simp add: step_def clearSettings_def setToken_def setApiBase_def split: sum.splits)
  next
    case (SetInput v)
    with False assms show ?thesis by (simp add: step_def)
  next
    case (KeyDown k sh)
    with False assms show ?thesis by (simp add: step_def onKeyDown_def send_def Let_def)
  next
    case SendClick
    with False assms show ?thesis by (simp add: step_def send_def Let_def)
  next
    case CancelClick
    with False assms show ?thesis by (auto simp add: step_def cancel_def split: option.splits)
  next
    case ResetChatClick
    with False assms show ?thesis by (simp add: step_def resetChat_def)
  next
    case (FetchSettled r)
    with False assms show ?thesis
      by (simp add: step_def send_fetch_settled_def send_finally_def send_catch_def
          split: send_task.splits settled.splits)
  next
    case (ReadSettled r)
    with False assms show ?thesis
      by (simp add: step_def send_read_settled_def send_finally_def send_catch_def Let_def split_def
          split: send_task.splits settled.splits read_result.splits option.splits sum.splits)
  next
    case (ResetSettled r)
    with False assms show ?thesis
      by (simp add: step_def resetChat_settled_def resetChat_catch_def split: settled.splits)
  qed
qed

lemma send_while_in_flight:
  "isSending s \<Longrightarrow> send s = s"
  by (simp add: send_def canSend_def)

lemma step_keeps_cleanup:
  assumes "task s = Idle \<longrightarrow> \<not> isSending s \<and> abortRef s = None"
  shows "task (step s ev) = Idle \<longrightarrow> \<not> isSending (step s ev) \<and> abortRef (step s ev) = None"
proof (cases "crashed s")
  case True
  with assms show ?thesis by (simp add: step_def)
next
  case False
  show ?thesis
  proof (cases ev)
    case (SetApiBase v)
    with False assms show ?thesis by (simp add: step_def setApiBase_def)
  next
    case (SetToken v)
    with False assms show ?thesis by (simp add: step_def setToken_def)
  next
    case ClearSettings
    with False assms show ?thesis
      by (simp add: step_def clearSettings_def setToken_def setApiBase_def split: sum.splits)
  next
    case (SetInput v)
    with False assms show ?thesis by (simp add: step_def)
  next
    case (KeyDown k sh)
    with False assms show ?thesis by (simp add: step_def onKeyDown_def send_def Let_def)
  next
    case SendClick
    with False assms show ?thesis by (simp add: step_def send_def Let_def)
  next
    case CancelClick
    with False assms show ?thesis by (auto simp add: step_def cancel_def split: option.splits)
  next
    case ResetChatClick
    with False assms show ?thesis by (simp add: step_def resetChat_def)
  next
    case (FetchSettled r)
    with False assms show ?thesis
      by (simp add: step_def send_fetch_settled_def send_finally_def send_catch_def
          split: send_task.splits settled.splits)
  next
    case (ReadSettled r)
    with False assms show ?thesis
      by (simp add: step_def send_read_settled_def send_finally_def send_catch_def Let_def split_def
          split: send_task.splits settled.splits read_result.splits option.splits sum.splits)
  next
    case (ResetSettled r)
    with False assms show ?thesis
      by (simp add: step_def resetChat_settled_def resetChat_catch_def split: settled.splits)
  qed
qed

lemma run_keeps_cleanup:
  assumes "task s = Idle \<longrightarrow> \<not> isSending s \<and> abortRef s = None"
  shows "task (run s evs) = Idle \<longrightarrow> \<not> isSending (run s evs) \<and> abortRef (run s evs) = None"
  using assms
proof (induction evs arbitrary: s)
  case Nil
  then show ?case by (simp add: run_Nil)
next
  case (Cons ev evs)
  show ?case
    unfolding run_Cons by (rule Cons.IH) (rule step_keeps_cleanup, rule Cons.prems)
qed



section \<open>The transcript of one send\<close>

text \<open>
  C1. Take a send that passes the guard and gets a successful response, and let any
  events come meanwhile (what the user does, resets that fail, reads that deliver
  chunks) but no successful response to \<open>/reset\<close>, up to the read that ends the stream.
  Then the transcript is the one the send found, followed by the user entry and by
  the assistant entry whose content is the concatenation, in arrival order, of the
  texts decoded from the chunks: none dropped, duplicated or reordered.
\<close>

theorem stream_concatenation:
  assumes "canSend s" "\<not> crashed s" "ok res" "has_body res"
    and "list_all leaves_stream evs0" "list_all not_fetch_settled evs0"
    and "list_all leaves_stream evs"
  shows "messages (run s (SendClick # evs0 @ FetchSettled (Resolved res) # evs
                          @ [ReadSettled (Resolved (ReadResult v True))]))
           = messages s @ [\<lparr>role = User, content = input s\<rparr>,
                           \<lparr>role = Assistant,
                            content = concat (chunk_texts new_TextDecoder
                              (stream_chunks (evs @ [ReadSettled (Resolved (ReadResult v True))])))\<rparr>]
         \<and> task (run s (SendClick # evs0 @ FetchSettled (Resolved res) # evs
                          @ [ReadSettled (Resolved (ReadResult v True))])) = Idle"
proof -
  let ?fin = "ReadSettled (Resolved (ReadResult v True))"
  let ?s1 = "run s (SendClick # evs0 @ FetchSettled (Resolved res) # evs)"
  let ?d = "decoder_after new_TextDecoder (stream_chunks evs)"
  let ?ms = "messages s @ [\<lparr>role = User, content = input s\<rparr>]"
  let ?m = "\<lparr>role = Assistant, content = concat (chunk_texts new_TextDecoder (stream_chunks evs))\<rparr>"
  from run_send_to_end[OF assms]
  have s1: "task ?s1 = Reading ?d" "\<not> crashed ?s1" "messages ?s1 = ?ms @ [?m]"
    by simp_all
  have eq: "run s (SendClick # evs0 @ FetchSettled (Resolved res) # evs @ [?fin]) = step ?s1 ?fin"
    by (simp add: run_Cons run_append run_Nil)
  have "messages (step ?s1 ?fin)
          = ?ms @ [\<lparr>role = Assistant,
                    content = content ?m @ concat (chunk_texts ?d (chunk_of ?fin))\<rparr>]
        \<and> task (step ?s1 ?fin) = Idle"
  proof (cases v)
    case None
    with s1 show ?thesis
      by (simp add: step_def send_read_settled_def send_finally_def)
  next
    case (Some bs)
    with step_read_chunk[OF s1, of bs True] show ?thesis
      by (simp add: send_finally_def)
  qed
  then show ?thesis
    unfolding eq by (simp add: stream_chunks_snoc chunk_texts_append)
qed

theorem stream_concatenation_witness:
  "canSend ready_state \<and>
   messages (run ready_state
     (SendClick # [SetInput (ascii ''next'')] @ FetchSettled (Resolved ok_response)
      # [read_chunk (ascii ''Hi''), ResetChatClick, ResetSettled (Resolved server_error),
         read_chunk (ascii '' there'')] @ [end_of_stream]))
     = [\<lparr>role = Assistant, content = welcome_text\<rparr>,
        \<lparr>role = User, content = ascii ''hello''\<rparr>,
        \<lparr>role = Assistant, content = ascii ''Hi there''\<rparr>]"
proof -
  have r: "ok ok_response" "has_body ok_response" by (simp_all add: ok_response_def)
  have e0: "list_all leaves_stream [SetInput (ascii ''next'')]"
    "list_all not_fetch_settled [SetInput (ascii ''next'')]"
    by simp_all
  have e1: "list_all leaves_stream [read_chunk (ascii ''Hi''), ResetChatClick,
      ResetSettled (Resolved server_error), read_chunk (ascii '' there'')]"
    by (simp add: server_error_def)
  have c: "stream_chunks ([read_chunk (ascii ''Hi''), ResetChatClick,
      ResetSettled (Resolved server_error), read_chunk (ascii '' there'')] @ [end_of_stream])
        = [ascii ''Hi'', ascii '' there'']"
    by (simp add: stream_chunks_def)
  from stream_concatenation [OF canSend_ready_state ready_state_fields(5) r e0 e1, of None]
  show ?thesis
    unfolding c decode_example by (simp add: canSend_ready_state ready_state_fields)
qed

text \<open>
  Without the proviso the entry of the send does not survive: Reset Chat succeeding
  between the chunks \<open>Hi\<close> and \<open> there\<close> leaves the single confirmation entry,
  extended by the later chunk.
\<close>

theorem reset_mid_stream_counterexample:
  "canSend ready_state \<and> ok ok_response \<and> has_body ok_response
   \<and> messages (run ready_state
       [SendClick, FetchSettled (Resolved ok_response), read_chunk (ascii ''Hi''),
        ResetChatClick, ResetSettled (Resolved ok_response), read_chunk (ascii '' there''),
        end_of_stream])
       = [\<lparr>role = Assistant, content = cleared_text @ ascii '' there''\<rparr>]
   \<and> task (run ready_state
       [SendClick, FetchSettled (Resolved ok_response), read_chunk (ascii ''Hi''),
        ResetChatClick, ResetSettled (Resolved ok_response), read_chunk (ascii '' there''),
        end_of_stream]) = Idle"
proof -
  have r: "ok ok_response" "has_body ok_response" by (simp_all add: ok_response_def)
  let ?d1 = "new_TextDecoder\<lparr>bom_seen := True\<rparr>"
  let ?s1 = "step streaming_state (read_chunk (ascii ''Hi''))"
  have s1: "task ?s1 = Reading ?d1" "\<not> crashed ?s1"
    using step_read_chunk[OF streaming_state_fields(1-3), of "ascii ''Hi''" False]
      streaming_state_fields(2)
    by (simp_all add: decode_Hi)
  let ?s2 = "run ?s1 [ResetChatClick, ResetSettled (Resolved ok_response)]"
  have s2: "task ?s2 = Reading ?d1" "\<not> crashed ?s2"
    "messages ?s2 = [] @ [\<lparr>role = Assistant, content = cleared_text\<rparr>]"
    using s1 r
    by (simp_all add: run_Cons run_Nil step_def resetChat_def resetChat_settled_def)
  let ?s3 = "step ?s2 (read_chunk (ascii '' there''))"
  have s3: "task ?s3 = Reading (snd (decode ?d1 (ascii '' there'')))" "\<not> crashed ?s3"
    "messages ?s3 = [\<lparr>role = Assistant, content = cleared_text @ ascii '' there''\<rparr>]"
    using step_read_chunk[OF s2, of "ascii '' there''" False] s2(2)
    by (simp_all add: decode_there)
  have s4: "messages (step ?s3 end_of_stream)
              = [\<lparr>role = Assistant, content = cleared_text @ ascii '' there''\<rparr>]"
    "task (step ?s3 end_of_stream) = Idle"
    using s3 by (simp_all add: step_def send_read_settled_def send_finally_def)
  have "run ready_state
       [SendClick, FetchSettled (Resolved ok_response), read_chunk (ascii ''Hi''),
        ResetChatClick, ResetSettled (Resolved ok_response), read_chunk (ascii '' there''),
        end_of_stream] = step ?s3 end_of_stream"
    by (simp add: streaming_state_def run_Cons run_Nil)
  with s4 r canSend_ready_state show ?thesis by simp
qed

text \<open>
  C9. While the stream is open, a chunk replaces the last entry by one whose content is
  the old content followed by the text decoded from the chunk, and changes no other
  entry. So the old content is a prefix of the new one; it is a proper prefix, and
  strictly shorter, exactly when the decoded text is not empty; when it is empty (an
  empty chunk, or bytes that are only part of a character or a byte order mark) the
  transcript is unchanged, and a read without value changes nothing at all. After any
  events that leave the stream open and bring no successful response to \<open>/reset\<close>, the
  content is the old content followed by the texts of the chunks in arrival order.
\<close>

theorem chunk_append_only:
  assumes "task s = Reading d" "\<not> crashed s" "isSending s" "messages s = ms @ [m]"
    "role m = Assistant" "list_all leaves_stream evs"
  shows "(let chunk = fst (decode d bs); s' = step s (read_chunk bs)
          in messages s' = ms @ [\<lparr>role = Assistant, content = content m @ chunk\<rparr>]
             \<and> prefix (content m) (content (last (messages s')))
             \<and> (strict_prefix (content m) (content (last (messages s'))) \<longleftrightarrow> chunk \<noteq> [])
             \<and> (length (content m) < length (content (last (messages s'))) \<longleftrightarrow> chunk \<noteq> [])
             \<and> (chunk = [] \<longrightarrow> messages s' = messages s))
       \<and> step s (read_chunk []) = s
       \<and> step s (ReadSettled (Resolved (ReadResult None False))) = s
       \<and> messages (run s evs)
           = ms @ [\<lparr>role = Assistant,
                    content = content m @ concat (chunk_texts d (stream_chunks evs))\<rparr>]"
proof -
  have a: "step s (read_chunk bs)
        = s\<lparr>messages := ms @ [\<lparr>role = Assistant, content = content m @ fst (decode d bs)\<rparr>],
            task := Reading (snd (decode d bs))\<rparr>" for bs
    using step_read_chunk[OF assms(1,2,4), of bs False] by simp
  have m: "\<lparr>role = Assistant, content = content m\<rparr> = m"
    using assms(5) by simp
  have b: "step s (read_chunk []) = s"
    using assms by (simp add: a decode_Nil m)
  have c: "step s (ReadSettled (Resolved (ReadResult None False))) = s"
    using assms by (simp add: step_def send_read_settled_def)
  have d: "messages (run s evs)
           = ms @ [\<lparr>role = Assistant,
                    content = content m @ concat (chunk_texts d (stream_chunks evs))\<rparr>]"
    using run_open_stream[OF assms] by simp
  show ?thesis
    unfolding Let_def using b c d assms(4) by (simp add: a m strict_prefix_def)
qed

theorem chunk_append_only_witness:
  "(let s' = step streaming_state (read_chunk (ascii ''Hi''))
    in messages s' = [\<lparr>role = Assistant, content = welcome_text\<rparr>,
                      \<lparr>role = User, content = ascii ''hello''\<rparr>,
                      \<lparr>role = Assistant, content = ascii ''Hi''\<rparr>]
       \<and> strict_prefix [] (content (last (messages s'))))
   \<and> step streaming_state (read_chunk []) = streaming_state
   \<and> messages (run streaming_state
        [read_chunk (ascii ''Hi''), SetInput (ascii ''next''), read_chunk (ascii '' there'')])
       = [\<lparr>role = Assistant, content = welcome_text\<rparr>,
          \<lparr>role = User, content = ascii ''hello''\<rparr>,
          \<lparr>role = Assistant, content = ascii ''Hi there''\<rparr>]"
proof -
  have m: "role \<lparr>role = Assistant, content = []\<rparr> = Assistant" by simp
  have d1: "fst (decode new_TextDecoder (ascii ''Hi'')) = ascii ''Hi''"
    by (simp add: decode_Hi)
  have ne: "ascii ''Hi'' \<noteq> []" by (simp add: ascii_def)
  have e: "list_all leaves_stream
      [read_chunk (ascii ''Hi''), SetInput (ascii ''next''), read_chunk (ascii '' there'')]"
    by simp
  have c: "stream_chunks
      [read_chunk (ascii ''Hi''), SetInput (ascii ''next''), read_chunk (ascii '' there'')]
        = [ascii ''Hi'', ascii '' there'']"
    by (simp add: stream_chunks_def)
  from chunk_append_only [OF streaming_state_fields(1,2,4,3) m e, of "ascii ''Hi''"]
  show ?thesis
    unfolding c decode_example Let_def using d1 ne streaming_state_fields(3)
    by (simp add: strict_prefix_def)
qed

text \<open>
  A chunk that is not empty need not make the content grow: the first byte of a
  three-byte character decodes to the empty string.
\<close>

theorem partial_character_counterexample:
  "task streaming_state = Reading new_TextDecoder \<and> [0xE2] \<noteq> ([]::bytes)
   \<and> messages (step streaming_state (read_chunk [0xE2])) = messages streaming_state
   \<and> \<not> strict_prefix (content (last (messages streaming_state)))
         (content (last (messages (step streaming_state (read_chunk [0xE2])))))"
proof -
  have d: "fst (decode new_TextDecoder [0xE2]) = []"
    by (simp add: decode_def utf8_handler_def utf8_lead_def new_TextDecoder_def)
  have "messages (step streaming_state (read_chunk [0xE2])) = messages streaming_state"
    using step_read_chunk[OF streaming_state_fields(1-3), of "[0xE2]" False]
      streaming_state_fields(3)
    by (simp add: d)
  then show ?thesis
    by (simp add: streaming_state_fields(1))
qed

text \<open>
  C10. A chunk is appended to whatever entry is last when it is applied, whatever its
  role or origin. \<open>resetChat\<close> issues its request also while a send is in progress, and
  when it succeeds while the stream is open, every later chunk of that stream is
  appended to the confirmation entry, which is then the whole transcript.
\<close>

theorem reset_during_stream:
  assumes "task s = Reading d" "\<not> crashed s" "isSending s" "ok res" "messages s = ms @ [m]"
  shows "messages (step s (read_chunk bs))
           = ms @ [\<lparr>role = Assistant, content = content m @ fst (decode d bs)\<rparr>]
       \<and> requests (step s ResetChatClick)
           = requests s @ [\<lparr>url = apiBase s @ ascii ''/reset'', http_method = ascii ''POST'',
                            headers = [(ascii ''Authorization'', ascii ''Bearer '' @ token s)],
                            body = NoBody, signal = None\<rparr>]
       \<and> messages (run s ([ResetChatClick, ResetSettled (Resolved res)] @ map read_chunk chunks))
           = [\<lparr>role = Assistant, content = cleared_text @ concat (chunk_texts d chunks)\<rparr>]"
proof -
  let ?s1 = "run s [ResetChatClick, ResetSettled (Resolved res)]"
  have s1: "task ?s1 = Reading d" "\<not> crashed ?s1"
    "messages ?s1 = [] @ [\<lparr>role = Assistant, content = cleared_text\<rparr>]"
    using assms
    by (simp_all add: run_Cons run_Nil step_def resetChat_def resetChat_settled_def)
  have "messages (run ?s1 (map read_chunk chunks))
          = [\<lparr>role = Assistant, content = cleared_text @ concat (chunk_texts d chunks)\<rparr>]"
    by (simp add: run_read_chunks[OF s1])
  moreover have "messages (step s (read_chunk bs))
           = ms @ [\<lparr>role = Assistant, content = content m @ fst (decode d bs)\<rparr>]"
    using step_read_chunk[OF assms(1,2,5), of bs False] by simp
  moreover have "requests (step s ResetChatClick)
           = requests s @ [\<lparr>url = apiBase s @ ascii ''/reset'', http_method = ascii ''POST'',
                            headers = [(ascii ''Authorization'', ascii ''Bearer '' @ token s)],
                            body = NoBody, signal = None\<rparr>]"
    using assms by (simp add: step_def resetChat_def)
  ultimately show ?thesis
    by (simp only: run_append)
qed

theorem reset_during_stream_witness:
  "task streaming_state = Reading new_TextDecoder \<and> isSending streaming_state
   \<and> messages (run streaming_state ([ResetChatClick, ResetSettled (Resolved ok_response)]
                                      @ map read_chunk [ascii ''Hi'', ascii '' there'']))
       = [\<lparr>role = Assistant, content = cleared_text @ ascii ''Hi there''\<rparr>]"
proof -
  have r: "ok ok_response" by (simp add: ok_response_def)
  from reset_during_stream [OF streaming_state_fields(1,2,4) r streaming_state_fields(3),
      of "[]" "[ascii ''Hi'', ascii '' there'']"]
  show ?thesis
    using decode_example streaming_state_fields(1,4) by simp
qed

section \<open>A character split across two chunks\<close>

text \<open>
  C7. Let the UTF-8 encoding of a scalar value \<open>cp\<close> from U+0080 on be
  split into two non-empty parts, the first at the end of one chunk (after bytes
  \<open>pre\<close> that leave the decoder between two characters) and the second at the start of
  the next chunk (before bytes \<open>post\<close>). Once both chunks are processed, the text
  appended to the last entry is the text of \<open>pre\<close>, then exactly the character \<open>cp\<close>,
  then the text of \<open>post\<close>: nothing is replaced or garbled at the split. The one
  exception is U+FEFF as the first character the decoder meets in the stream, which it
  removes as a byte order mark.
\<close>

theorem split_character:
  assumes "task s = Reading d0" "\<not> crashed s" "messages s = ms @ [m]"
    and "is_scalar_value cp" "0x80 \<le> cp"
    and "utf8_encode cp = bs1 @ bs2" "bs1 \<noteq> []" "bs2 \<noteq> []"
    and "snd (decode d0 pre) = new_TextDecoder\<lparr>bom_seen := seen\<rparr>"
  shows "messages (run s [read_chunk (pre @ bs1), read_chunk (bs2 @ post)])
           = ms @ [\<lparr>role = Assistant,
                    content = content m @ fst (decode d0 pre)
                      @ (if cp = 0xFEFF \<and> \<not> seen then [] else utf16 cp)
                      @ fst (decode (new_TextDecoder\<lparr>bom_seen := True\<rparr>) post)\<rparr>]"
proof -
  let ?c1 = "pre @ bs1" and ?c2 = "bs2 @ post"
  let ?t1 = "fst (decode d0 ?c1)" and ?d1 = "snd (decode d0 ?c1)"
  let ?s1 = "s\<lparr>messages := ms @ [\<lparr>role = Assistant, content = content m @ ?t1\<rparr>],
               task := Reading ?d1\<rparr>"
  have st1: "step s (read_chunk ?c1) = ?s1"
    using step_read_chunk[OF assms(1-3), of ?c1 False] by simp
  have st2: "messages (step ?s1 (read_chunk ?c2))
      = ms @ [\<lparr>role = Assistant, content = (content m @ ?t1) @ fst (decode ?d1 ?c2)\<rparr>]"
    using step_read_chunk[of ?s1 ?d1 ms "\<lparr>role = Assistant, content = content m @ ?t1\<rparr>" ?c2 False]
      assms(2) by simp
  have "?t1 @ fst (decode ?d1 ?c2) = fst (decode d0 (?c1 @ ?c2))"
    by (simp add: decode_append)
  also have "?c1 @ ?c2 = pre @ (utf8_encode cp @ post)"
    by (simp add: assms(6))
  also have "fst (decode d0 (pre @ (utf8_encode cp @ post)))
      = fst (decode d0 pre) @ fst (decode (new_TextDecoder\<lparr>bom_seen := seen\<rparr>) (utf8_encode cp @ post))"
    by (simp add: decode_append[of d0 pre] assms(9))
  also have "fst (decode (new_TextDecoder\<lparr>bom_seen := seen\<rparr>) (utf8_encode cp @ post))
      = (if cp = 0xFEFF \<and> \<not> seen then [] else utf16 cp)
          @ fst (decode (new_TextDecoder\<lparr>bom_seen := True\<rparr>) post)"
    by (simp add: decode_append[of _ "utf8_encode cp"] decode_encode[OF assms(4,5)])
  finally have "?t1 @ fst (decode ?d1 ?c2) = fst (decode d0 pre)
      @ (if cp = 0xFEFF \<and> \<not> seen then [] else utf16 cp)
      @ fst (decode (new_TextDecoder\<lparr>bom_seen := True\<rparr>) post)" .
  then show ?thesis
    by (simp add: run_Cons run_Nil st1 st2)
qed

theorem split_character_witness:
  "is_scalar_value 0x20AC \<and> utf8_encode 0x20AC = [0xE2] @ [0x82, 0xAC]
   \<and> messages (run streaming_state [read_chunk [0xE2], read_chunk [0x82, 0xAC]])
       = [\<lparr>role = Assistant, content = welcome_text\<rparr>,
          \<lparr>role = User, content = ascii ''hello''\<rparr>,
          \<lparr>role = Assistant, content = [0x20AC]\<rparr>]"
proof -
  have sc: "is_scalar_value 0x20AC" "(0x80::nat) \<le> 0x20AC"
    by (simp_all add: is_scalar_value_def)
  have enc: "utf8_encode 0x20AC = [0xE2] @ [0x82, 0xAC]"
    by (simp add: utf8_encode_def)
  have ne: "[0xE2] \<noteq> ([]::bytes)" "[0x82, 0xAC] \<noteq> ([]::bytes)"
    by simp_all
  have pre: "snd (decode new_TextDecoder []) = new_TextDecoder\<lparr>bom_seen := False\<rparr>"
    by (simp add: decode_Nil new_TextDecoder_def)
  from split_character [OF streaming_state_fields(1-3) sc enc ne pre, of "[]"]
  show ?thesis
    using sc enc by (simp add: decode_Nil utf16_def)
qed

text \<open>
  The exception: U+FEFF, encoded \<open>EF BB BF\<close>, split after its first byte at the start of
  the stream. Both chunks decode to the empty string and the assistant entry stays empty.
\<close>

theorem split_bom_counterexample:
  "is_scalar_value 0xFEFF \<and> utf8_encode 0xFEFF = [0xEF] @ [0xBB, 0xBF]
   \<and> utf16 0xFEFF = [0xFEFF]
   \<and> messages (run streaming_state [read_chunk [0xEF], read_chunk [0xBB, 0xBF]])
       = [\<lparr>role = Assistant, content = welcome_text\<rparr>,
          \<lparr>role = User, content = ascii ''hello''\<rparr>,
          \<lparr>role = Assistant, content = []\<rparr>]"
proof -
  have d1: "decode new_TextDecoder [0xEF]
      = ([], new_TextDecoder\<lparr>bytes_needed := 2, code_point := 15\<rparr>)"
    by (simp add: decode_def utf8_handler_def utf8_lead_def new_TextDecoder_def)
  have d2: "fst (decode (new_TextDecoder\<lparr>bytes_needed := 2, code_point := 15\<rparr>) [0xBB, 0xBF]) = []"
    by (simp add: decode_def utf8_handler_def utf8_lead_def new_TextDecoder_def)
  have "run streaming_state (map read_chunk [[0xEF], [0xBB, 0xBF]])
      = streaming_state\<lparr>messages := [\<lparr>role = Assistant, content = welcome_text\<rparr>,
          \<lparr>role = User, content = ascii ''hello''\<rparr>] @
        [\<lparr>role = Assistant, content = content \<lparr>role = Assistant, content = []\<rparr>
            @ concat (chunk_texts new_TextDecoder [[0xEF], [0xBB, 0xBF]])\<rparr>],
          task := Reading (decoder_after new_TextDecoder [[0xEF], [0xBB, 0xBF]])\<rparr>"
    by (rule run_read_chunks[OF streaming_state_fields(1-3)]) simp
  then show ?thesis
    by (simp add: d1 d2 is_scalar_value_def utf8_encode_def utf16_def)
qed

section \<open>How a send ends\<close>

text \<open>
  C4. After a send has passed the guard, in every execution, whenever no send is
  suspended any more the sending flag is false and \<open>abortRef\<close> is null. The send does end
  so on each path: the request fails (a network error, a cancellation, any exception),
  the response is not successful or has no body, the stream ends, or a read fails.
\<close>

theorem send_cleanup:
  assumes "canSend s" "\<not> crashed s"
  shows
   "(task (run (send s) evs) = Idle \<longrightarrow>
       \<not> isSending (run (send s) evs) \<and> abortRef (run (send s) evs) = None)
    \<and> isSending (send s) \<and> abortRef (send s) \<noteq> None
    \<and> (let s' = run s [SendClick, FetchSettled (Rejected e)]
       in task s' = Idle \<and> \<not> isSending s' \<and> abortRef s' = None)
    \<and> (\<not> ok res \<or> \<not> has_body res \<longrightarrow>
         (let s' = run s [SendClick, FetchSettled (Resolved res)]
          in task s' = Idle \<and> \<not> isSending s' \<and> abortRef s' = None))
    \<and> (ok res \<and> has_body res \<longrightarrow>
         (let s' = run s ([SendClick, FetchSettled (Resolved res)] @ map read_chunk chunks
                          @ [end_of_stream])
          in task s' = Idle \<and> \<not> isSending s' \<and> abortRef s' = None)
       \<and> (let s' = run s ([SendClick, FetchSettled (Resolved res)] @ map read_chunk chunks
                          @ [ReadSettled (Rejected e)])
          in task s' = Idle \<and> \<not> isSending s' \<and> abortRef s' = None))"
proof -
  have inv: "task (send s) = Idle \<longrightarrow> \<not> isSending (send s) \<and> abortRef (send s) = None"
    using assms by (simp add: send_state)
  have a: "task (run (send s) evs) = Idle \<longrightarrow>
       \<not> isSending (run (send s) evs) \<and> abortRef (run (send s) evs) = None"
    by (rule run_keeps_cleanup) (rule inv)
  have b: "isSending (send s) \<and> abortRef (send s) \<noteq> None"
    using assms by (simp add: send_state)
  have c: "let s' = run s [SendClick, FetchSettled (Rejected e)]
       in task s' = Idle \<and> \<not> isSending s' \<and> abortRef s' = None"
    using assms
    by (simp add: run_Cons run_Nil step_def send_state send_fetch_settled_def send_finally_def
        send_catch_def)
  have d: "\<not> ok res \<or> \<not> has_body res \<longrightarrow>
         (let s' = run s [SendClick, FetchSettled (Resolved res)]
          in task s' = Idle \<and> \<not> isSending s' \<and> abortRef s' = None)"
    using assms
    by (simp add: run_Cons run_Nil step_def send_state send_fetch_settled_def send_finally_def
        send_catch_def)
  have f: "(let s' = run s ([SendClick, FetchSettled (Resolved res)] @ map read_chunk chunks
                          @ [ev])
          in task s' = Idle \<and> \<not> isSending s' \<and> abortRef s' = None)"
    if r: "ok res" "has_body res" and ev: "ev = end_of_stream \<or> ev = ReadSettled (Rejected e)" for ev
  proof -
    let ?s1 = "run s ([SendClick, FetchSettled (Resolved res)] @ map read_chunk chunks)"
    have "run s ([SendClick, FetchSettled (Resolved res)] @ map read_chunk chunks @ [ev])
            = step ?s1 ev"
      by (simp only: run_append run_Cons run_Nil append_assoc[symmetric])
    moreover have "task (step ?s1 ev) = Idle \<and> \<not> isSending (step ?s1 ev)
                     \<and> abortRef (step ?s1 ev) = None"
      unfolding run_stream[OF assms r] using ev assms
      by (auto simp add: send_state step_def send_read_settled_def send_finally_def
          send_catch_def)
    ultimately show ?thesis unfolding Let_def by simp
  qed
  from a b c d f show ?thesis by simp
qed

theorem send_cleanup_witness:
  "canSend ready_state \<and> isSending (send ready_state)
   \<and> (let s' = run ready_state [SendClick, FetchSettled (Resolved server_error)]
      in task s' = Idle \<and> \<not> isSending s' \<and> abortRef s' = None)
   \<and> (let s' = run ready_state [SendClick, FetchSettled (Rejected fetch_failed)]
      in task s' = Idle \<and> \<not> isSending s' \<and> abortRef s' = None)
   \<and> (let s' = run ready_state ([SendClick, FetchSettled (Resolved ok_response)]
                     @ map read_chunk [ascii ''Hi'', ascii '' there''] @ [end_of_stream])
      in task s' = Idle \<and> \<not> isSending s' \<and> abortRef s' = None)
   \<and> (let s' = run ready_state ([SendClick, FetchSettled (Resolved ok_response)]
                     @ map read_chunk [ascii ''Hi'', ascii '' there'']
                     @ [ReadSettled (Rejected fetch_failed)])
      in task s' = Idle \<and> \<not> isSending s' \<and> abortRef s' = None)"
proof -
  have r: "\<not> ok server_error" "ok ok_response" "has_body ok_response"
    by (simp_all add: server_error_def ok_response_def)
  from send_cleanup [OF canSend_ready_state ready_state_fields(5),
      of "[]" fetch_failed server_error "[ascii ''Hi'', ascii '' there'']"]
    send_cleanup [OF canSend_ready_state ready_state_fields(5),
      of "[]" fetch_failed ok_response "[ascii ''Hi'', ascii '' there'']"]
  show ?thesis
    using r canSend_ready_state by simp
qed

text \<open>
  C5. While the stream is open, \<open>cancel\<close> aborts the signal held in \<open>abortRef\<close> and
  changes neither the transcript nor the error; when the pending read then rejects
  with an \<open>AbortError\<close>, the loop exits with the transcript as it was (the fragments
  appended so far stay) and the error untouched, the sending flag is false and
  \<open>abortRef\<close> is null.
\<close>

theorem cancel_mid_stream:
  assumes "task s = Reading d" "\<not> crashed s" "err_name e = ascii ''AbortError''"
  shows "messages (step s CancelClick) = messages s
       \<and> error (step s CancelClick) = error s
       \<and> task (step s CancelClick) = Reading d
       \<and> (\<forall>c. abortRef s = Some c \<and> c < length (signals s) \<longrightarrow> signals (step s CancelClick) ! c)
       \<and> (let s' = run s [CancelClick, ReadSettled (Rejected e)]
          in messages s' = messages s \<and> error s' = error s \<and> \<not> isSending s'
             \<and> abortRef s' = None \<and> task s' = Idle)"
  using assms
  by (auto simp add: run_Cons run_Nil step_def cancel_def send_read_settled_def send_catch_def
      send_finally_def split: option.splits)

theorem cancel_mid_stream_witness:
  "(let s1 = run ready_state ([SendClick, FetchSettled (Resolved ok_response)]
                               @ map read_chunk [ascii ''Hi'', ascii '' there'']);
        s' = run s1 [CancelClick,
               ReadSettled (Rejected \<lparr>err_name = ascii ''AbortError'', err_message = ascii ''aborted''\<rparr>)]
    in task s1 = Reading (decoder_after new_TextDecoder [ascii ''Hi'', ascii '' there''])
       \<and> messages s' = [\<lparr>role = Assistant, content = welcome_text\<rparr>,
                        \<lparr>role = User, content = ascii ''hello''\<rparr>,
                        \<lparr>role = Assistant, content = ascii ''Hi there''\<rparr>]
       \<and> error s' = [] \<and> \<not> isSending s' \<and> abortRef s' = None \<and> task s' = Idle)"
proof -
  let ?chunks = "[ascii ''Hi'', ascii '' there'']"
  let ?s1 = "run ready_state ([SendClick, FetchSettled (Resolved ok_response)]
                               @ map read_chunk ?chunks)"
  let ?e = "\<lparr>err_name = ascii ''AbortError'', err_message = ascii ''aborted''\<rparr>"
  have r: "ok ok_response" "has_body ok_response" by (simp_all add: ok_response_def)
  note st = run_stream[OF canSend_ready_state ready_state_fields(5) r, of ?chunks]
  have t: "task ?s1 = Reading (decoder_after new_TextDecoder ?chunks)"
    unfolding st by simp
  have c: "\<not> crashed ?s1"
    unfolding st by (simp add: send_state[OF canSend_ready_state] ready_state_fields)
  have m: "messages ?s1 = [\<lparr>role = Assistant, content = welcome_text\<rparr>,
                        \<lparr>role = User, content = ascii ''hello''\<rparr>,
                        \<lparr>role = Assistant, content = ascii ''Hi there''\<rparr>]"
    "error ?s1 = []"
    unfolding st using decode_example
    by (simp_all add: send_state[OF canSend_ready_state] ready_state_fields)
  have n: "err_name ?e = ascii ''AbortError''" by simp
  from cancel_mid_stream [OF t c n] t m show ?thesis
    unfolding Let_def by simp
qed

section \<open>Resetting the chat\<close>

lemma error_text_new_Error: "msg \<noteq> [] \<Longrightarrow> error_text (new_Error msg) = msg"
  by (simp add: error_text_def new_Error_def)

lemma http_error_text:
  "error_text (new_Error (ascii ''HTTP '' @ digits n)) = ascii ''HTTP '' @ digits n"
  by (rule error_text_new_Error) (simp add: ascii_def)

text \<open>
  C6. \<open>resetChat\<close> followed by a successful response leaves exactly one assistant entry
  with the confirmation text. Followed by a response that is not successful, or by a
  rejected request, it leaves the transcript as it was before the call and sets the
  error to \<open>HTTP\<close> and the status, or to the text of the exception. So the transcript
  becomes the confirmation entry exactly when the response is successful (or it was
  that entry already).
\<close>

theorem resetChat_outcome:
  assumes "\<not> crashed s"
  shows "(ok res \<longrightarrow>
           messages (run s [ResetChatClick, ResetSettled (Resolved res)])
             = [\<lparr>role = Assistant, content = cleared_text\<rparr>])
       \<and> (\<not> ok res \<longrightarrow>
           messages (run s [ResetChatClick, ResetSettled (Resolved res)]) = messages s
           \<and> error (run s [ResetChatClick, ResetSettled (Resolved res)])
               = ascii ''HTTP '' @ digits (status res))
       \<and> messages (run s [ResetChatClick, ResetSettled (Rejected e)]) = messages s
       \<and> error (run s [ResetChatClick, ResetSettled (Rejected e)]) = error_text e
       \<and> (messages (run s [ResetChatClick, ResetSettled (Resolved res)])
             = [\<lparr>role = Assistant, content = cleared_text\<rparr>]
           \<longleftrightarrow> ok res \<or> messages s = [\<lparr>role = Assistant, content = cleared_text\<rparr>])"
  using assms
  by (auto simp add: run_Cons run_Nil step_def resetChat_def resetChat_settled_def
      resetChat_catch_def http_error_text)

theorem resetChat_outcome_witness:
  "messages (run ready_state [ResetChatClick, ResetSettled (Resolved ok_response)])
     = [\<lparr>role = Assistant, content = cleared_text\<rparr>]
   \<and> messages (run ready_state [ResetChatClick, ResetSettled (Resolved server_error)])
     = [\<lparr>role = Assistant, content = welcome_text\<rparr>]
   \<and> error (run ready_state [ResetChatClick, ResetSettled (Resolved server_error)])
     = ascii ''HTTP 500''
   \<and> messages (run ready_state [ResetChatClick, ResetSettled (Rejected fetch_failed)])
     = [\<lparr>role = Assistant, content = welcome_text\<rparr>]
   \<and> error (run ready_state [ResetChatClick, ResetSettled (Rejected fetch_failed)])
     = ascii ''Failed to fetch''"
proof -
  have r: "\<not> ok server_error" "ok ok_response" "status server_error = 500"
    by (simp_all add: server_error_def ok_response_def)
  have d: "digits 500 = ascii ''500''"
    by (simp add: digits.simps[of 500] digits.simps[of 50] digits.simps[of 5] ascii_def)
  have e: "error_text fetch_failed = ascii ''Failed to fetch''"
    by (simp add: error_text_def fetch_failed_def ascii_def)
  from resetChat_outcome [OF ready_state_fields(5), of ok_response fetch_failed]
    resetChat_outcome [OF ready_state_fields(5), of server_error fetch_failed]
  show ?thesis
    using r d e by (simp add: ready_state_fields ascii_def)
qed

section \<open>Persisting the settings\<close>

lemma keys_distinct: "vc_apiBase \<noteq> vc_apiToken"
  by (simp add: vc_apiBase_def vc_apiToken_def ascii_def)

lemma step_keeps_persisted:
  assumes "\<not> access_denied (storage s)" "\<not> quota_exceeded (storage s)"
    "items (storage s) vc_apiBase = (if apiBase s = [] then None else Some (apiBase s))"
    "items (storage s) vc_apiToken = (if token s = [] then None else Some (token s))"
  shows "\<not> access_denied (storage (step s ev)) \<and> \<not> quota_exceeded (storage (step s ev))
    \<and> items (storage (step s ev)) vc_apiBase
        = (if apiBase (step s ev) = [] then None else Some (apiBase (step s ev)))
    \<and> items (storage (step s ev)) vc_apiToken
        = (if token (step s ev) = [] then None else Some (token (step s ev)))"
proof (cases "crashed s")
  case True
  with assms show ?thesis by (simp add: step_def)
next
  case False
  note k = keys_distinct keys_distinct[symmetric]
  show ?thesis
  proof (cases ev)
    case (SetApiBase v)
    with False assms k show ?thesis
      by (simp add: step_def setApiBase_def useLocalStorage_effect_def setItem_def removeItem_def)
  next
    case (SetToken v)
    with False assms k show ?thesis
      by (simp add: step_def setToken_def useLocalStorage_effect_def setItem_def removeItem_def)
  next
    case ClearSettings
    with False assms k show ?thesis
      by (simp add: step_def clearSettings_def setToken_def setApiBase_def
          useLocalStorage_effect_def removeItem_def)
  next
    case (SetInput v)
    with False assms show ?thesis by (simp add: step_def)
  next
    case (KeyDown kk sh)
    with False assms show ?thesis by (simp add: step_def onKeyDown_def send_def Let_def)
  next
    case SendClick
    with False assms show ?thesis by (simp add: step_def send_def Let_def)
  next
    case CancelClick
    with False assms show ?thesis by (simp add: step_def cancel_def split: option.splits)
  next
    case ResetChatClick
    with False assms show ?thesis by (simp add: step_def resetChat_def)
  next
    case (FetchSettled r)
    with False assms show ?thesis
      by (simp add: step_def send_fetch_settled_def send_finally_def send_catch_def
          split: send_task.splits settled.splits)
  next
    case (ReadSettled r)
    with False assms show ?thesis
      by (simp add: step_def send_read_settled_def send_finally_def send_catch_def Let_def split_def
          split: send_task.splits settled.splits read_result.splits option.splits sum.splits)
  next
    case (ResetSettled r)
    with False assms show ?thesis
      by (simp add: step_def resetChat_settled_def resetChat_catch_def split: settled.splits)
  qed
qed

lemma run_keeps_persisted:
  assumes "\<not> access_denied (storage s)" "\<not> quota_exceeded (storage s)"
    "items (storage s) vc_apiBase = (if apiBase s = [] then None else Some (apiBase s))"
    "items (storage s) vc_apiToken = (if token s = [] then None else Some (token s))"
  shows "\<not> access_denied (storage (run s evs)) \<and> \<not> quota_exceeded (storage (run s evs))
    \<and> items (storage (run s evs)) vc_apiBase
        = (if apiBase (run s evs) = [] then None else Some (apiBase (run s evs)))
    \<and> items (storage (run s evs)) vc_apiToken
        = (if token (run s evs) = [] then None else Some (token (run s evs)))"
  using assms
proof (induction evs arbitrary: s)
  case Nil
  then show ?case by (simp add: run_Nil)
next
  case (Cons ev evs)
  from step_keeps_persisted[OF Cons.prems, of ev] show ?case
    unfolding run_Cons by (intro Cons.IH) simp_all
qed

lemma js_or_Str: "\<exists>x. js_or a (Str d) = Str x"
  by (cases a) simp_all

lemma useLocalStorage_init_Str: "\<exists>x. useLocalStorage_init st key (js_or a (Str d)) = Str x"
  using js_or_Str[of a d]
  by (auto simp add: useLocalStorage_init_def split: sum.splits option.splits)

lemma App_init_persisted:
  assumes "\<not> access_denied st" "\<not> quota_exceeded st"
  shows "\<not> access_denied (storage (App_init b t st))
    \<and> \<not> quota_exceeded (storage (App_init b t st))
    \<and> items (storage (App_init b t st)) vc_apiBase
        = (if apiBase (App_init b t st) = [] then None else Some (apiBase (App_init b t st)))
    \<and> items (storage (App_init b t st)) vc_apiToken
        = (if token (App_init b t st) = [] then None else Some (token (App_init b t st)))"
proof -
  obtain x where x: "useLocalStorage_init st vc_apiBase
      (js_or b (Str (ascii ''http://localhost:8000''))) = Str x"
    using useLocalStorage_init_Str by blast
  obtain y where y: "useLocalStorage_init st vc_apiToken (js_or t (Str [])) = Str y"
    using useLocalStorage_init_Str by blast
  note k = keys_distinct keys_distinct[symmetric]
  show ?thesis
    using assms k
    by (simp add: App_init_def Let_def x y useLocalStorage_effect_def setItem_def removeItem_def)
qed

lemma step_denied_storage:
  "access_denied (storage s) \<Longrightarrow> storage (step s ev) = storage s"
proof (cases "crashed s")
  case True
  then show ?thesis by (simp add: step_def)
next
  case False
  assume d: "access_denied (storage s)"
  show ?thesis
  proof (cases ev)
    case (SetApiBase v)
    with False d show ?thesis
      by (simp add: step_def setApiBase_def useLocalStorage_effect_def setItem_def removeItem_def)
  next
    case (SetToken v)
    with False d show ?thesis
      by (simp add: step_def setToken_def useLocalStorage_effect_def setItem_def removeItem_def)
  next
    case ClearSettings
    with False d show ?thesis
      by (simp add: step_def clearSettings_def removeItem_def)
  next
    case (SetInput v)
    with False show ?thesis by (simp add: step_def)
  next
    case (KeyDown kk sh)
    with False show ?thesis by (simp add: step_def onKeyDown_def send_def Let_def)
  next
    case SendClick
    with False show ?thesis by (simp add: step_def send_def Let_def)
  next
    case CancelClick
    with False show ?thesis by (simp add: step_def cancel_def split: option.splits)
  next
    case ResetChatClick
    with False show ?thesis by (simp add: step_def resetChat_def)
  next
    case (FetchSettled r)
    with False show ?thesis
      by (simp add: step_def send_fetch_settled_def send_finally_def send_catch_def
          split: send_task.splits settled.splits)
  next
    case (ReadSettled r)
    with False show ?thesis
      by (simp add: step_def send_read_settled_def send_finally_def send_catch_def Let_def split_def
          split: send_task.splits settled.splits read_result.splits option.splits sum.splits)
  next
    case (ResetSettled r)
    with False show ?thesis
      by (simp add: step_def resetChat_settled_def resetChat_catch_def split: settled.splits)
  qed
qed

lemma run_denied_storage:
  "access_denied (storage s) \<Longrightarrow> storage (run s evs) = storage s"
proof (induction evs arbitrary: s)
  case Nil
  then show ?case by (simp add: run_Nil)
next
  case (Cons ev evs)
  have "storage (step s ev) = storage s"
    using Cons.prems by (rule step_denied_storage)
  with Cons.IH[of "step s ev"] Cons.prems show ?case
    by (simp add: run_Cons)
qed

lemma App_init_denied: "access_denied st \<Longrightarrow> storage (App_init b t st) = st"
  by (simp add: App_init_def Let_def useLocalStorage_effect_def setItem_def removeItem_def)

lemma set_after_run:
  "\<not> crashed (run (App_init b t st) evs)"
  using run_keeps_transcript[of "App_init b t st" evs] App_init_transcript[of b t st] by simp

text \<open>
  C8. For every key: the effect of the hook stores a non-empty value under the key
  (a later load returns it) when the storage accepts the write, and removes the key
  (a later load returns the initial value) when the value is empty, null or undefined.
  When the storage throws, on load the hook returns the initial value, and on
  persisting it leaves the storage as it was; no error reaches the caller, and the
  in-memory setting is the value that was set. In the component, after any events
  since the first render: with a storage that accepts writes, setting the endpoint
  base or the token leaves exactly that value stored under its key, or no key when
  the value is empty; with a storage that denies access, the storage is untouched and
  the setting in memory is the value set.
\<close>

theorem useLocalStorage_persistence:
  "(\<not> access_denied st \<and> \<not> quota_exceeded st \<and> v \<noteq> [] \<longrightarrow>
      items (useLocalStorage_effect st key (Str v)) = (items st)(key \<mapsto> v)
      \<and> useLocalStorage_init (useLocalStorage_effect st key (Str v)) key iv = Str v)
   \<and> (\<not> access_denied st \<and> val \<in> {Undefined, Null, Str []} \<longrightarrow>
      items (useLocalStorage_effect st key val) = (items st)(key := None)
      \<and> useLocalStorage_init (useLocalStorage_effect st key val) key iv = iv)
   \<and> ((\<exists>e. getItem st key = Inl e) \<longrightarrow> useLocalStorage_init st key iv = iv)
   \<and> (val \<notin> {Undefined, Null, Str []} \<and> (\<exists>e. setItem st key (to_String val) = Inl e) \<longrightarrow>
      useLocalStorage_effect st key val = st)
   \<and> (val \<in> {Undefined, Null, Str []} \<and> (\<exists>e. removeItem st key = Inl e) \<longrightarrow>
      useLocalStorage_effect st key val = st)
   \<and> (\<not> crashed s \<longrightarrow> apiBase (step s (SetApiBase v)) = v \<and> token (step s (SetToken v)) = v)
   \<and> (\<not> access_denied st \<and> \<not> quota_exceeded st \<longrightarrow>
      items (storage (run (App_init b t st) (evs @ [SetApiBase w]))) vc_apiBase
        = (if w = [] then None else Some w)
      \<and> items (storage (run (App_init b t st) (evs @ [SetToken w]))) vc_apiToken
        = (if w = [] then None else Some w))
   \<and> (access_denied st \<longrightarrow>
      storage (run (App_init b t st) (evs @ [SetApiBase w])) = st
      \<and> apiBase (run (App_init b t st) (evs @ [SetApiBase w])) = w
      \<and> storage (run (App_init b t st) (evs @ [SetToken w])) = st
      \<and> token (run (App_init b t st) (evs @ [SetToken w])) = w)"
proof -
  let ?s = "run (App_init b t st) evs"
  have nc: "\<not> crashed ?s" by (rule set_after_run)
  have mem: "apiBase (step ?s (SetApiBase w)) = w" "token (step ?s (SetToken w)) = w"
    using nc by (simp_all add: step_def setApiBase_def setToken_def)
  have p: "items (storage (step ?s (SetApiBase w))) vc_apiBase = (if w = [] then None else Some w)
      \<and> items (storage (step ?s (SetToken w))) vc_apiToken = (if w = [] then None else Some w)"
    if w: "\<not> access_denied st" "\<not> quota_exceeded st"
  proof -
    note i = App_init_persisted[OF w, of b t]
    have r: "\<not> access_denied (storage ?s)" "\<not> quota_exceeded (storage ?s)"
      "items (storage ?s) vc_apiBase = (if apiBase ?s = [] then None else Some (apiBase ?s))"
      "items (storage ?s) vc_apiToken = (if token ?s = [] then None else Some (token ?s))"
      using run_keeps_persisted[of "App_init b t st" evs] i by simp_all
    from step_keeps_persisted[OF r, of "SetApiBase w"] step_keeps_persisted[OF r, of "SetToken w"]
    show ?thesis by (simp add: mem)
  qed
  have q: "storage (step ?s (SetApiBase w)) = st \<and> storage (step ?s (SetToken w)) = st"
    if d: "access_denied st"
  proof -
    have "access_denied (storage (App_init b t st))"
      using d by (simp add: App_init_denied)
    then have "storage ?s = st"
      using run_denied_storage[of "App_init b t st" evs] d by (simp add: App_init_denied)
    then show ?thesis
      using d step_denied_storage[of ?s] by simp
  qed
  have hook: "(\<not> access_denied st \<and> \<not> quota_exceeded st \<and> v \<noteq> [] \<longrightarrow>
      items (useLocalStorage_effect st key (Str v)) = (items st)(key \<mapsto> v)
      \<and> useLocalStorage_init (useLocalStorage_effect st key (Str v)) key iv = Str v)
   \<and> (\<not> access_denied st \<and> val \<in> {Undefined, Null, Str []} \<longrightarrow>
      items (useLocalStorage_effect st key val) = (items st)(key := None)
      \<and> useLocalStorage_init (useLocalStorage_effect st key val) key iv = iv)
   \<and> ((\<exists>e. getItem st key = Inl e) \<longrightarrow> useLocalStorage_init st key iv = iv)
   \<and> (val \<notin> {Undefined, Null, Str []} \<and> (\<exists>e. setItem st key (to_String val) = Inl e) \<longrightarrow>
      useLocalStorage_effect st key val = st)
   \<and> (val \<in> {Undefined, Null, Str []} \<and> (\<exists>e. removeItem st key = Inl e) \<longrightarrow>
      useLocalStorage_effect st key val = st)
   \<and> (\<not> crashed s \<longrightarrow> apiBase (step s (SetApiBase v)) = v \<and> token (step s (SetToken v)) = v)"
    by (auto simp add: useLocalStorage_effect_def useLocalStorage_init_def getItem_def setItem_def
      removeItem_def step_def setApiBase_def setToken_def)
  have e: "run (App_init b t st) (evs @ [ev]) = step ?s ev" for ev
    by (simp add: run_append run_Cons run_Nil)
  from hook p q mem show ?thesis
    unfolding e by blast
qed

theorem useLocalStorage_persistence_witness:
  "items (useLocalStorage_effect working_storage vc_apiBase (Str (ascii ''http://x''))) vc_apiBase
     = Some (ascii ''http://x'')
   \<and> items (useLocalStorage_effect
              (useLocalStorage_effect working_storage vc_apiBase (Str (ascii ''http://x'')))
              vc_apiBase (Str [])) vc_apiBase = None
   \<and> getItem denied_storage vc_apiBase
       = Inl \<lparr>err_name = ascii ''SecurityError'', err_message = []\<rparr>
   \<and> useLocalStorage_init denied_storage vc_apiBase (Str (ascii ''http://localhost:8000''))
       = Str (ascii ''http://localhost:8000'')
   \<and> useLocalStorage_effect denied_storage vc_apiBase (Str (ascii ''http://x'')) = denied_storage
   \<and> useLocalStorage_effect denied_storage vc_apiBase (Str []) = denied_storage
   \<and> items (storage (run (App_init (Str (ascii ''http://x'')) (Str (ascii ''t'')) working_storage)
                         ([SetInput (ascii ''hello'')] @ [SetApiBase (ascii ''http://y'')])))
         vc_apiBase = Some (ascii ''http://y'')
   \<and> items (storage (run (App_init (Str (ascii ''http://x'')) (Str (ascii ''t'')) working_storage)
                         ([SetApiBase (ascii ''http://y'')] @ [SetApiBase []])))
         vc_apiBase = None
   \<and> storage (run (App_init (Str (ascii ''http://x'')) (Str (ascii ''t'')) denied_storage)
                  ([SetInput (ascii ''hello'')] @ [SetApiBase (ascii ''http://y'')]))
       = denied_storage
   \<and> apiBase (run (App_init (Str (ascii ''http://x'')) (Str (ascii ''t'')) denied_storage)
                  ([SetInput (ascii ''hello'')] @ [SetApiBase (ascii ''http://y'')]))
       = ascii ''http://y''"
proof -
  let ?st1 = "useLocalStorage_effect working_storage vc_apiBase (Str (ascii ''http://x''))"
  let ?b = "Str (ascii ''http://x'')" and ?t = "Str (ascii ''t'')"
  have w: "\<not> access_denied working_storage" "\<not> quota_exceeded working_storage"
    by (simp_all add: working_storage_def)
  have w1: "\<not> access_denied ?st1"
    by (simp add: useLocalStorage_effect_def setItem_def working_storage_def ascii_def)
  have dn: "access_denied denied_storage"
    by (simp add: denied_storage_def)
  have x: "ascii ''http://x'' \<noteq> []" "ascii ''http://y'' \<noteq> []" by (simp_all add: ascii_def)
  have g: "getItem denied_storage vc_apiBase
       = Inl \<lparr>err_name = ascii ''SecurityError'', err_message = []\<rparr>"
    "setItem denied_storage vc_apiBase (ascii ''http://x'')
       = Inl \<lparr>err_name = ascii ''SecurityError'', err_message = []\<rparr>"
    "removeItem denied_storage vc_apiBase
       = Inl \<lparr>err_name = ascii ''SecurityError'', err_message = []\<rparr>"
    by (simp_all add: getItem_def setItem_def removeItem_def denied_storage_def)
  from useLocalStorage_persistence [of working_storage "ascii ''http://x''" vc_apiBase
      "Str []" "Str []" ready_state ?b ?t "[SetInput (ascii ''hello'')]" "ascii ''http://y''"]
    useLocalStorage_persistence [of working_storage "ascii ''http://x''" vc_apiBase
      "Str []" "Str []" ready_state ?b ?t "[SetApiBase (ascii ''http://y'')]" "[]"]
    useLocalStorage_persistence [of ?st1 "ascii ''http://y''" vc_apiBase
      "Str []" "Str []" ready_state ?b ?t "[]" "[]"]
    useLocalStorage_persistence [of denied_storage "ascii ''http://x''" vc_apiBase
      "Str (ascii ''http://localhost:8000'')" "Str (ascii ''http://x'')" ready_state
      ?b ?t "[SetInput (ascii ''hello'')]" "ascii ''http://y''"]
    useLocalStorage_persistence [of denied_storage "ascii ''http://x''" vc_apiBase
      "Str (ascii ''http://localhost:8000'')" "Str []" ready_state ?b ?t "[]" "[]"]
  show ?thesis
    using w w1 dn x g ready_state_fields(5) by simp
qed

end
